theory Spec2Isabelle
  imports Complex_Main
begin

section \<open>Values, errors and containers of the notebook\<close>

text \<open>
  The notebook \<^verbatim>\<open>src/code/part_2.ipynb\<close> is a linear Python script. Every exception
  it can raise is a value of \<open>py_error\<close>; a computation that may raise returns
  \<open>py_error + 'a\<close> with \<open>Inl\<close> for the exception.
\<close>

datatype py_error =
    IndexError
  | KeyError string
  | ValueError
  | NameError string
  | AttributeError
  | TypeError
  | RuntimeError
  | FileNotFoundError
  | MisconfigurationException

definition on_ok :: "py_error + 'a \<Rightarrow> ('a \<Rightarrow> py_error + 'b) \<Rightarrow> py_error + 'b" where
  "on_ok m f = (case m of Inl e \<Rightarrow> Inl e | Inr v \<Rightarrow> f v)"

text \<open>A field of a dataset row or a dataframe cell: a Python \<open>str\<close> or a Python \<open>int\<close>.\<close>

datatype cell = StrV string | IntV int

text \<open>
  Python list subscription \<^verbatim>\<open>xs[i]\<close>: an index in \<open>[0, len)\<close> reads from the front, one in
  \<open>[-len, 0)\<close> reads from the back, any other raises \<open>IndexError\<close>.
\<close>

definition list_getitem :: "'a list \<Rightarrow> int \<Rightarrow> py_error + 'a" where
  "list_getitem xs i =
     (if 0 \<le> i \<and> i < int (length xs) then Inr (xs ! nat i)
      else if i < 0 \<and> - int (length xs) \<le> i then Inr (xs ! nat (int (length xs) + i))
      else Inl IndexError)"

text \<open>
  A Python \<open>dict\<close> whose insertion order matters is an association list with distinct keys;
  \<^verbatim>\<open>d[k]\<close> raises \<open>KeyError\<close> on a missing key and \<^verbatim>\<open>d.values()\<close> lists the values in
  insertion order.
\<close>

definition dict_getitem :: "(string \<times> 'v) list \<Rightarrow> string \<Rightarrow> py_error + 'v" where
  "dict_getitem d k = (case map_of d k of None \<Rightarrow> Inl (KeyError k) | Some v \<Rightarrow> Inr v)"

definition dict_values :: "('k \<times> 'v) list \<Rightarrow> 'v list" where
  "dict_values d = map snd d"

text \<open>
  A split of the Hugging Face dataset is a column-major table: \<open>num_rows\<close> rows and an
  ordered list of named columns. \<^verbatim>\<open>split[i]\<close> is the row \<open>i\<close> as a dict from column name
  to value.
\<close>

record table =
  num_rows :: nat
  data :: "(string \<times> cell list) list"

type_synonym dataset_dict = "(string \<times> table) list"

type_synonym sample = "string \<rightharpoonup> cell"

definition table_row :: "table \<Rightarrow> nat \<Rightarrow> sample" where
  "table_row t i = (\<lambda>c. case map_of (data t) c of None \<Rightarrow> None | Some col \<Rightarrow> Some (col ! i))"

text \<open>
  A pandas dataframe over a \<open>RangeIndex\<close> \<open>0 .. index_len - 1\<close>, with the name of the index
  and the ordered named columns.
\<close>

record dataframe =
  index_name :: "string option"
  index_len :: nat
  columns :: "(string \<times> cell list) list"

definition to_pandas :: "table \<Rightarrow> dataframe" where
  "to_pandas t = \<lparr>index_name = None, index_len = num_rows t, columns = data t\<rparr>"

text \<open>\<^verbatim>\<open>df[c]\<close>: the column \<open>c\<close>, \<open>KeyError\<close> when there is none.\<close>

definition df_getitem :: "dataframe \<Rightarrow> string \<Rightarrow> py_error + cell list" where
  "df_getitem df c = dict_getitem (columns df) c"

text \<open>\<^verbatim>\<open>Series.unique()\<close>: the distinct values in order of first appearance.\<close>

definition unique :: "'a list \<Rightarrow> 'a list" where
  "unique xs = rev (remdups (rev xs))"

section \<open>Loading the data (code cell 2)\<close>

text \<open>
  \<^verbatim>\<open>pd_dataset = {split_name: split_data.to_pandas() for split_name, split_data in dataset.items()}\<close>
\<close>

definition pd_dataset :: "dataset_dict \<Rightarrow> (string \<times> dataframe) list" where
  "pd_dataset dataset = map (\<lambda>(split_name, split_data). (split_name, to_pandas split_data)) dataset"

text \<open>
  \<^verbatim>\<open>train_dataset, test_dataset, val_dataset = dataset.values()\<close>: positional unpacking of
  the values, \<open>ValueError\<close> unless there are exactly three.
\<close>

record split_vars =
  train_dataset :: table
  test_dataset :: table
  val_dataset :: table

definition unpack_splits :: "dataset_dict \<Rightarrow> py_error + split_vars" where
  "unpack_splits dataset =
     (case dict_values dataset of
        [a, b, c] \<Rightarrow> Inr \<lparr>train_dataset = a, test_dataset = b, val_dataset = c\<rparr>
      | _ \<Rightarrow> Inl ValueError)"

text \<open>\<^verbatim>\<open>num_labels = len(pd_dataset["train"]["label"].unique())\<close>\<close>

definition num_labels :: "dataset_dict \<Rightarrow> py_error + nat" where
  "num_labels dataset =
     on_ok (dict_getitem (pd_dataset dataset) ''train'') (\<lambda>train.
     on_ok (df_getitem train ''label'') (\<lambda>col.
     Inr (length (unique col))))"

section \<open>The label names (code cell 8)\<close>

text \<open>
  \<^verbatim>\<open>ID_TO_LABEL = dict(zip(range(6), ('A1', 'A2', 'B1', 'B2', 'C1', 'C2',)))\<close> and
  \<^verbatim>\<open>label_names = list(ID_TO_LABEL.values())\<close>.
\<close>

definition ID_TO_LABEL :: "(int \<times> string) list" where
  "ID_TO_LABEL = zip (map int [0..<6]) [''A1'', ''A2'', ''B1'', ''B2'', ''C1'', ''C2'']"

definition label_names :: "string list" where
  "label_names = dict_values ID_TO_LABEL"

section \<open>The collate function (code cell 1)\<close>

text \<open>
  The tokenizer is the pretrained \<^verbatim>\<open>camembert-base\<close> tokenizer of the \<^verbatim>\<open>transformers\<close>
  library. The model keeps what the call \<^verbatim>\<open>tokenizer(text, padding="longest", return_tensors="pt")\<close>
  asks of it: \<open>encode\<close> gives the token ids of one sentence (special tokens included, no
  truncation is requested), every row is padded with \<open>pad_token_id\<close> to the longest row of the
  batch, and the attention mask is 1 on tokens and 0 on padding. What the library
  does on an empty list or on a non-string is not fixed by the notebook; the model makes
  both an exception, and the data loader never passes an empty batch.
\<close>

record tokenizer =
  encode :: "string \<Rightarrow> int list"
  pad_token_id :: int

record batch_encoding =
  tok_input_ids :: "int list list"
  tok_attention_mask :: "int list list"

definition pad_to :: "nat \<Rightarrow> 'a \<Rightarrow> 'a list \<Rightarrow> 'a list" where
  "pad_to n p xs = xs @ replicate (n - length xs) p"

fun str_of :: "cell \<Rightarrow> py_error + string" where
  "str_of (StrV s) = Inr s"
| "str_of (IntV _) = Inl TypeError"

text \<open>
  The elements of an integer tensor are 64-bit signed integers: building one from a
  Python \<open>int\<close> outside that range raises \<open>RuntimeError\<close>, from a string \<open>ValueError\<close>.
\<close>

definition int64 :: "int \<Rightarrow> bool" where
  "int64 n \<longleftrightarrow> - 9223372036854775808 \<le> n \<and> n < 9223372036854775808"

fun int_of :: "cell \<Rightarrow> py_error + int" where
  "int_of (IntV n) = (if int64 n then Inr n else Inl RuntimeError)"
| "int_of (StrV _) = Inl ValueError"

text \<open>A list comprehension over calls that may raise: the first exception ends it.\<close>

fun collect :: "('a \<Rightarrow> py_error + 'b) \<Rightarrow> 'a list \<Rightarrow> py_error + 'b list" where
  "collect f [] = Inr []"
| "collect f (x # xs) = on_ok (f x) (\<lambda>y. on_ok (collect f xs) (\<lambda>ys. Inr (y # ys)))"

definition longest :: "'a list list \<Rightarrow> nat" where
  "longest rows = foldr max (map length rows) 0"

definition tokenizer_call :: "tokenizer \<Rightarrow> cell list \<Rightarrow> py_error + batch_encoding" where
  "tokenizer_call tok text =
     (if text = [] then Inl IndexError
      else on_ok (collect str_of text) (\<lambda>strs.
        let ids = map (encode tok) strs; n = longest ids
        in Inr \<lparr>tok_input_ids = map (pad_to n (pad_token_id tok)) ids,
                tok_attention_mask = map (\<lambda>r. pad_to n 0 (replicate (length r) 1)) ids\<rparr>))"

text \<open>
  \<^verbatim>\<open>torch.tensor([...])\<close> of the labels: a 1-D tensor of 64-bit integers, an exception on
  a string or on an integer that does not fit.
\<close>

definition torch_tensor :: "cell list \<Rightarrow> py_error + int list" where
  "torch_tensor xs = collect int_of xs"

definition sample_getitem :: "sample \<Rightarrow> string \<Rightarrow> py_error + cell" where
  "sample_getitem s k = (case s k of None \<Rightarrow> Inl (KeyError k) | Some v \<Rightarrow> Inr v)"

text \<open>The dict that \<^verbatim>\<open>tokenize_batch\<close> returns, one field per key.\<close>

record batch =
  input_ids :: "int list list"
  attention_mask :: "int list list"
  labels :: "int list"
  str_labels :: "cell list"
  sentences :: "cell list"

definition tokenize_batch :: "sample list \<Rightarrow> tokenizer \<Rightarrow> py_error + batch" where
  "tokenize_batch samples tokenizer =
     on_ok (collect (\<lambda>sample. sample_getitem sample ''sentence'') samples) (\<lambda>text.
     on_ok (collect (\<lambda>sample. sample_getitem sample ''label'') samples) (\<lambda>ls.
     on_ok (torch_tensor ls) (\<lambda>labels.
     on_ok (collect (\<lambda>sample. sample_getitem sample ''difficulty'') samples) (\<lambda>str_labels.
     on_ok (tokenizer_call tokenizer text) (\<lambda>tokens.
     Inr \<lparr>input_ids = tok_input_ids tokens, attention_mask = tok_attention_mask tokens,
          labels = labels, str_labels = str_labels, sentences = text\<rparr>)))))"

text \<open>The shape of a 2-D tensor given as its rows: the rows, and the one length they all have.\<close>

definition has_shape :: "'a list list \<Rightarrow> nat \<Rightarrow> nat \<Rightarrow> bool" where
  "has_shape t n m \<longleftrightarrow> length t = n \<and> list_all (\<lambda>r. length r = m) t"

section \<open>The data loaders (code cells 6 and 12)\<close>

text \<open>
  \<^verbatim>\<open>torch.utils.data.DataLoader(dataset, batch_size, shuffle, collate_fn)\<close>. The sampler
  yields the row numbers \<open>0 .. n-1\<close> in order when \<open>shuffle\<close> is false and in the order
  \<open>perm\<close> drawn by the random sampler otherwise; the batch sampler cuts that sequence
  into batches of \<open>batch_size\<close> and keeps a shorter last batch; each batch of rows goes
  through \<open>collate_fn\<close>.
\<close>

record dataloader =
  dl_dataset :: table
  batch_size :: nat
  shuffle :: bool
  collate_fn :: "sample list \<Rightarrow> py_error + batch"

definition sampler :: "dataloader \<Rightarrow> nat list \<Rightarrow> nat list" where
  "sampler dl perm = (if shuffle dl then perm else [0..<num_rows (dl_dataset dl)])"

fun batch_sampler :: "nat \<Rightarrow> 'a list \<Rightarrow> 'a list \<Rightarrow> 'a list list" where
  "batch_sampler bs batch [] = (if batch \<noteq> [] then [batch] else [])"
| "batch_sampler bs batch (idx # rest) =
     (let batch' = batch @ [idx]
      in if length batch' = bs then batch' # batch_sampler bs [] rest
         else batch_sampler bs batch' rest)"

definition index_batches :: "dataloader \<Rightarrow> nat list \<Rightarrow> nat list list" where
  "index_batches dl perm = batch_sampler (batch_size dl) [] (sampler dl perm)"

definition fetch :: "dataloader \<Rightarrow> nat list \<Rightarrow> py_error + batch" where
  "fetch dl idxs = collate_fn dl (map (table_row (dl_dataset dl)) idxs)"

definition dataloader_iter :: "dataloader \<Rightarrow> nat list \<Rightarrow> py_error + batch list" where
  "dataloader_iter dl perm = collect (fetch dl) (index_batches dl perm)"

definition train_dataloader :: "dataset_dict \<Rightarrow> tokenizer \<Rightarrow> py_error + dataloader" where
  "train_dataloader dataset tokenizer =
     on_ok (dict_getitem dataset ''train'') (\<lambda>d.
     Inr \<lparr>dl_dataset = d, batch_size = 16, shuffle = True,
          collate_fn = (\<lambda>samples. tokenize_batch samples tokenizer)\<rparr>)"

definition val_dataloader :: "dataset_dict \<Rightarrow> tokenizer \<Rightarrow> py_error + dataloader" where
  "val_dataloader dataset tokenizer =
     on_ok (dict_getitem dataset ''validation'') (\<lambda>d.
     Inr \<lparr>dl_dataset = d, batch_size = 16, shuffle = False,
          collate_fn = (\<lambda>samples. tokenize_batch samples tokenizer)\<rparr>)"

definition test_dataloader :: "dataset_dict \<Rightarrow> tokenizer \<Rightarrow> py_error + dataloader" where
  "test_dataloader dataset tokenizer =
     on_ok (dict_getitem dataset ''test'') (\<lambda>d.
     Inr \<lparr>dl_dataset = d, batch_size = 16, shuffle = False,
          collate_fn = (\<lambda>samples. tokenize_batch samples tokenizer)\<rparr>)"

text \<open>
  A split the pipeline can read from its first row to its last: it has rows, its
  \<open>sentence\<close> column holds strings, its \<open>label\<close> column 64-bit integers, it has a
  \<open>difficulty\<close> column, and the three columns have the length of the split.
\<close>

fun is_sentence :: "cell \<Rightarrow> bool" where
  "is_sentence (StrV _) = True"
| "is_sentence (IntV _) = False"

fun is_label :: "cell \<Rightarrow> bool" where
  "is_label (IntV n) = int64 n"
| "is_label (StrV _) = False"

definition readable_split :: "table \<Rightarrow> bool" where
  "readable_split t \<longleftrightarrow>
     0 < num_rows t \<and>
     (case (map_of (data t) ''sentence'', map_of (data t) ''label'', map_of (data t) ''difficulty'') of
        (Some ss, Some ls, Some ds) \<Rightarrow>
          length ss = num_rows t \<and> length ls = num_rows t \<and> length ds = num_rows t
          \<and> list_all is_sentence ss \<and> list_all is_label ls
      | _ \<Rightarrow> False)"

section \<open>Prediction\<close>

text \<open>
  \<^verbatim>\<open>camembert_trainer.predict(lightning_model, dataloaders=dl)\<close> returns the list of what
  the model's \<open>predict_step\<close> returns on each batch, and \<^verbatim>\<open>torch.cat(preds, -1)\<close> joins
  these 1-D tensors, raising on an empty list. The class \<^verbatim>\<open>LightningModel\<close> is imported
  from a module that is not part of the notebook, so its \<open>predict_step\<close> is a parameter:
  a function from the model and a batch to a 1-D tensor of label ids.
\<close>

definition trainer_predict ::
  "('m \<Rightarrow> batch \<Rightarrow> int list) \<Rightarrow> 'm \<Rightarrow> dataloader \<Rightarrow> nat list \<Rightarrow> py_error + int list list" where
  "trainer_predict predict_step model dl perm =
     on_ok (dataloader_iter dl perm) (\<lambda>batches. Inr (map (predict_step model) batches))"

definition torch_cat :: "'a list list \<Rightarrow> py_error + 'a list" where
  "torch_cat ts = (if ts = [] then Inl RuntimeError else Inr (concat ts))"

definition predict_cat ::
  "('m \<Rightarrow> batch \<Rightarrow> int list) \<Rightarrow> 'm \<Rightarrow> dataloader \<Rightarrow> nat list \<Rightarrow> py_error + int list" where
  "predict_cat predict_step model dl perm =
     on_ok (trainer_predict predict_step model dl perm) torch_cat"

section \<open>Fine-tuning and the reloaded model (code cell 7)\<close>

text \<open>
  The arguments of \<^verbatim>\<open>LightningModel("camembert-base", num_labels, lr=3e-5, weight_decay=2)\<close>.
  The literal \<^verbatim>\<open>3e-5\<close> is kept as written, mantissa and decimal exponent.
\<close>

datatype decimal = Decimal int int

record lightning_args =
  model_name :: string
  head_size :: nat
  lr :: decimal
  weight_decay :: int

definition lightning_model_args :: "dataset_dict \<Rightarrow> py_error + lightning_args" where
  "lightning_model_args dataset =
     on_ok (num_labels dataset) (\<lambda>n.
     Inr \<lparr>model_name = ''camembert-base'', head_size = n, lr = Decimal 3 (- 5), weight_decay = 2\<rparr>)"

text \<open>
  \<^verbatim>\<open>pl.callbacks.ModelCheckpoint(monitor="valid/acc", mode="max")\<close>,
  \<^verbatim>\<open>pl.callbacks.EarlyStopping(monitor="valid/acc", patience=4, mode="max")\<close> and
  \<^verbatim>\<open>pl.Trainer(max_epochs=25, gpus=1, callbacks=[...])\<close>.
\<close>

record model_checkpoint_cfg =
  ckpt_monitor :: string
  ckpt_mode :: string

record early_stopping_cfg =
  es_monitor :: string
  es_patience :: nat
  es_mode :: string

record trainer_cfg =
  max_epochs :: nat
  gpus :: nat
  early_stopping :: early_stopping_cfg
  checkpoint_callback :: model_checkpoint_cfg

definition model_checkpoint :: model_checkpoint_cfg where
  "model_checkpoint = \<lparr>ckpt_monitor = ''valid/acc'', ckpt_mode = ''max''\<rparr>"

definition camembert_trainer :: trainer_cfg where
  "camembert_trainer =
     \<lparr>max_epochs = 25, gpus = 1,
      early_stopping = \<lparr>es_monitor = ''valid/acc'', es_patience = 4, es_mode = ''max''\<rparr>,
      checkpoint_callback = model_checkpoint\<rparr>"

text \<open>
  What \<^verbatim>\<open>camembert_trainer.fit\<close> leaves behind is decided by the checkpoint callback of
  the training library. Its documented behaviour with the default \<open>save_top_k = 1\<close> is
  modelled on the history of the run: the list, one entry per validation epoch that
  ran, of the model at the end of that epoch and the metrics it logged (the scores are
  reals here). At the end of each validation epoch the callback reads the monitored
  metric, raises when it was not logged, and when there is no best score yet or the
  score is strictly better than the best one, writes the checkpoint of this epoch in
  place of the previous one and records its path and score (\<open>ckpt_files\<close> lists the
  files of the checkpoint directory, path and stored model). How many epochs run
  (\<open>max_epochs\<close>, early stopping) only decides how long the history is.
\<close>

record 'm epoch_end =
  ep_model :: 'm
  ep_metrics :: "(string \<times> real) list"

record 'm checkpoint_state =
  best_model_path :: "nat option"
  best_model_score :: "real option"
  ckpt_files :: "(nat \<times> 'm) list"

definition monitor_op :: "string \<Rightarrow> real \<Rightarrow> real \<Rightarrow> bool" where
  "monitor_op mode current best = (if mode = ''max'' then best < current else current < best)"

definition on_validation_end ::
  "model_checkpoint_cfg \<Rightarrow> 'm checkpoint_state \<Rightarrow> nat \<Rightarrow> 'm epoch_end \<Rightarrow> py_error + 'm checkpoint_state" where
  "on_validation_end cfg st k ep =
     (case map_of (ep_metrics ep) (ckpt_monitor cfg) of
        None \<Rightarrow> Inl MisconfigurationException
      | Some current \<Rightarrow>
          if (case best_model_score st of None \<Rightarrow> True
              | Some best \<Rightarrow> monitor_op (ckpt_mode cfg) current best)
          then Inr \<lparr>best_model_path = Some k, best_model_score = Some current,
                    ckpt_files = [(k, ep_model ep)]\<rparr>
          else Inr st)"

fun run_epochs ::
  "model_checkpoint_cfg \<Rightarrow> 'm checkpoint_state \<Rightarrow> nat \<Rightarrow> 'm epoch_end list \<Rightarrow> py_error + 'm checkpoint_state" where
  "run_epochs cfg st k [] = Inr st"
| "run_epochs cfg st k (ep # eps) =
     on_ok (on_validation_end cfg st k ep) (\<lambda>st'. run_epochs cfg st' (Suc k) eps)"

definition trainer_fit :: "trainer_cfg \<Rightarrow> 'm epoch_end list \<Rightarrow> py_error + 'm checkpoint_state" where
  "trainer_fit trainer history =
     run_epochs (checkpoint_callback trainer)
       \<lparr>best_model_path = None, best_model_score = None, ckpt_files = []\<rparr> 0 history"

text \<open>
  \<^verbatim>\<open>LightningModel.load_from_checkpoint(checkpoint_path=model_checkpoint.best_model_path)\<close>:
  the model stored at the path, an exception when the path is empty or the file is gone.
\<close>

definition load_from_checkpoint :: "'m checkpoint_state \<Rightarrow> py_error + 'm" where
  "load_from_checkpoint st =
     (case best_model_path st of
        None \<Rightarrow> Inl FileNotFoundError
      | Some path \<Rightarrow> (case map_of (ckpt_files st) path of None \<Rightarrow> Inl FileNotFoundError | Some m \<Rightarrow> Inr m))"

text \<open>The value of the variable \<open>lightning_model\<close> at the end of code cell 7.\<close>

definition lightning_model :: "'m epoch_end list \<Rightarrow> py_error + 'm" where
  "lightning_model history = on_ok (trainer_fit camembert_trainer history) load_from_checkpoint"

text \<open>
  Code cell 8 after code cell 7:
  \<^verbatim>\<open>camembert_preds = torch.cat(camembert_trainer.predict(lightning_model, dataloaders=val_dataloader), -1)\<close>
\<close>

definition camembert_preds ::
  "('m \<Rightarrow> batch \<Rightarrow> int list) \<Rightarrow> 'm epoch_end list \<Rightarrow> dataset_dict \<Rightarrow> tokenizer \<Rightarrow> py_error + int list" where
  "camembert_preds predict_step history dataset tokenizer =
     on_ok (val_dataloader dataset tokenizer) (\<lambda>dl.
     on_ok (lightning_model history) (\<lambda>model.
     predict_cat predict_step model dl []))"

section \<open>The submission (code cell 12)\<close>

definition has_column :: "dataframe \<Rightarrow> string \<Rightarrow> bool" where
  "has_column df c \<longleftrightarrow> c \<in> set (map fst (columns df))"

fun set_column :: "string \<Rightarrow> cell list \<Rightarrow> (string \<times> cell list) list \<Rightarrow> (string \<times> cell list) list" where
  "set_column c vals [] = []"
| "set_column c vals ((n, col) # rest) =
     (if n = c then (n, vals) # rest else (n, col) # set_column c vals rest)"

text \<open>
  \<^verbatim>\<open>df.c = values\<close>: when \<open>c\<close> is a column, the column is replaced (\<open>ValueError\<close> when
  the length is not the length of the index); when it is not, pandas only sets a Python
  attribute and the columns stay as they are.
\<close>

definition df_setattr :: "dataframe \<Rightarrow> string \<Rightarrow> cell list \<Rightarrow> py_error + dataframe" where
  "df_setattr df c vals =
     (if has_column df c
      then (if length vals = index_len df
            then Inr (df\<lparr>columns := set_column c vals (columns df)\<rparr>)
            else Inl ValueError)
      else Inr df)"

text \<open>
  \<^verbatim>\<open>df.c.apply(f)\<close>: \<open>f\<close> on every value of the column \<open>c\<close>. When \<open>c\<close> is not a column,
  \<^verbatim>\<open>df.c\<close> is no Series and the call raises \<open>AttributeError\<close>.
\<close>

definition df_attr_apply :: "dataframe \<Rightarrow> string \<Rightarrow> (cell \<Rightarrow> py_error + cell) \<Rightarrow> py_error + cell list" where
  "df_attr_apply df c f =
     (case map_of (columns df) c of None \<Rightarrow> Inl AttributeError | Some col \<Rightarrow> collect f col)"

text \<open>\<^verbatim>\<open>lambda x: label_names[x]\<close>\<close>

fun label_of :: "cell \<Rightarrow> py_error + cell" where
  "label_of (IntV x) = on_ok (list_getitem label_names x) (\<lambda>s. Inr (StrV s))"
| "label_of (StrV _) = Inl TypeError"

text \<open>\<^verbatim>\<open>df.drop(columns=cs, inplace=True)\<close>: \<open>KeyError\<close> when one of \<open>cs\<close> is no column.\<close>

definition df_drop :: "dataframe \<Rightarrow> string list \<Rightarrow> py_error + dataframe" where
  "df_drop df cs =
     (case filter (\<lambda>c. \<not> has_column df c) cs of
        [] \<Rightarrow> Inr (df\<lparr>columns := filter (\<lambda>(n, col). n \<notin> set cs) (columns df)\<rparr>)
      | c # _ \<Rightarrow> Inl (KeyError c))"

definition format_submission :: "table \<Rightarrow> int list \<Rightarrow> py_error + dataframe" where
  "format_submission test preds =
     (let test_df = to_pandas test in
      on_ok (df_setattr test_df ''label'' (map IntV preds)) (\<lambda>test_df.
      on_ok (df_attr_apply test_df ''label'' label_of) (\<lambda>difficulty.
      on_ok (df_setattr test_df ''difficulty'' difficulty) (\<lambda>test_df.
      df_drop (test_df\<lparr>index_name := Some ''id''\<rparr>) [''sentence'', ''label'']))))"

text \<open>
  \<^verbatim>\<open>df.to_csv('preds.csv')\<close>: a header line with the name of the index and the column
  names, then one line per row with the index value and the values of the row.
\<close>

record csv_file =
  csv_header :: "string list"
  csv_lines :: "(nat \<times> cell list) list"

definition to_csv :: "dataframe \<Rightarrow> csv_file" where
  "to_csv df =
     \<lparr>csv_header = (case index_name df of None \<Rightarrow> [] | Some n \<Rightarrow> n) # map fst (columns df),
      csv_lines = map (\<lambda>i. (i, map (\<lambda>(n, col). col ! i) (columns df))) [0..<index_len df]\<rparr>"

text \<open>What a reader of the file finds in line \<open>i\<close> under the column named \<open>c\<close>.\<close>

definition csv_field :: "csv_file \<Rightarrow> nat \<Rightarrow> string \<Rightarrow> cell option" where
  "csv_field f i c = map_of (zip (tl (csv_header f)) (snd (csv_lines f ! i))) c"

definition submission_cell ::
  "('m \<Rightarrow> batch \<Rightarrow> int list) \<Rightarrow> 'm \<Rightarrow> dataset_dict \<Rightarrow> tokenizer \<Rightarrow> py_error + csv_file" where
  "submission_cell predict_step model dataset tokenizer =
     on_ok (test_dataloader dataset tokenizer) (\<lambda>dl.
     on_ok (predict_cat predict_step model dl []) (\<lambda>preds.
     on_ok (dict_getitem dataset ''test'') (\<lambda>test.
     on_ok (format_submission test preds) (\<lambda>test_df.
     Inr (to_csv test_df)))))"

text \<open>Code cell 12 after code cell 7: the file written with the reloaded model.\<close>

definition preds_csv ::
  "('m \<Rightarrow> batch \<Rightarrow> int list) \<Rightarrow> 'm epoch_end list \<Rightarrow> dataset_dict \<Rightarrow> tokenizer \<Rightarrow> py_error + csv_file" where
  "preds_csv predict_step history dataset tokenizer =
     on_ok (lightning_model history) (\<lambda>model.
     submission_cell predict_step model dataset tokenizer)"

section \<open>Names bound and read by the cells\<close>

text \<open>
  Running the notebook top to bottom binds and reads global names. A statement is an
  import (binds names), a function definition (binds the name; the global names its
  body reads are looked up when it is called), or any other statement, given by the
  names it reads in evaluation order and the names it binds afterwards. A read is a
  plain load of a name or the call of a function defined in the notebook, which loads the
  function and then the global names of its body. Parameters, comprehension variables
  and lambda parameters are local and do not appear. A read of an unbound name raises
  \<open>NameError\<close> and ends the run.
\<close>

datatype use = Load string | Call string

datatype stmt =
    Import "string list"
  | Def string "string list"
  | Exec "use list" "string list"

type_synonym env = "(string \<times> string list) list"

definition builtins :: env where
  "builtins = map (\<lambda>n. (n, [])) [''len'', ''print'', ''range'', ''dict'', ''zip'', ''list'']"

fun first_unbound :: "env \<Rightarrow> string list \<Rightarrow> string option" where
  "first_unbound env [] = None"
| "first_unbound env (n # ns) = (if map_of env n = None then Some n else first_unbound env ns)"

fun names_of :: "env \<Rightarrow> use \<Rightarrow> string list" where
  "names_of env (Load n) = [n]"
| "names_of env (Call f) = f # (case map_of env f of None \<Rightarrow> [] | Some body \<Rightarrow> body)"

fun run_stmt :: "env \<Rightarrow> stmt \<Rightarrow> py_error + env" where
  "run_stmt env (Import ns) = Inr (map (\<lambda>n. (n, [])) ns @ env)"
| "run_stmt env (Def f body) = Inr ((f, body) # env)"
| "run_stmt env (Exec reads binds) =
     (case first_unbound env (concat (map (names_of env) reads)) of
        Some n \<Rightarrow> Inl (NameError n)
      | None \<Rightarrow> Inr (map (\<lambda>n. (n, [])) binds @ env))"

fun run_stmts :: "env \<Rightarrow> stmt list \<Rightarrow> py_error + env" where
  "run_stmts env [] = Inr env"
| "run_stmts env (s # ss) = on_ok (run_stmt env s) (\<lambda>env'. run_stmts env' ss)"

fun run_cells :: "env \<Rightarrow> stmt list list \<Rightarrow> py_error + env" where
  "run_cells env [] = Inr env"
| "run_cells env (c # cs) = on_ok (run_stmts env c) (\<lambda>env'. run_cells env' cs)"

text \<open>The twelve code cells of the notebook, statement by statement.\<close>

definition cell_1 :: "stmt list" where
  "cell_1 =
     [Import [''pd''], Import [''AutoTokenizer''], Import [''load_dataset''], Import [''sns''],
      Import [''torch''], Import [''DataLoader''], Import [''functools''],
      Import [''LightningModel''], Import [''pl''], Import [''confusion_matrix''],
      Import [''plt''], Import [''classification_report''],
      Def ''tokenize_batch'' [''torch''],
      Def ''plot_confusion_matrix''
        [''confusion_matrix'', ''list'', ''range'', ''len'', ''plt'', ''sns'']]"

definition cell_2 :: "stmt list" where
  "cell_2 =
     [Exec [Load ''AutoTokenizer''] [''tokenizer''],
      Exec [Load ''load_dataset''] [''dataset''],
      Exec [Load ''dataset''] [''pd_dataset''],
      Exec [Load ''dataset''] [''train_dataset'', ''test_dataset'', ''val_dataset''],
      Exec [Load ''len'', Load ''pd_dataset''] [''num_labels'']]"

definition cell_3 :: "stmt list" where
  "cell_3 =
     [Exec [Load ''sns''] [],
      Exec [Load ''len'', Load ''pd_dataset''] [''nb_labels''],
      Exec [Load ''print'', Load ''nb_labels''] [],
      Exec [Load ''pd_dataset'', Load ''nb_labels''] [''ax''],
      Exec [Load ''ax''] [], Exec [Load ''ax''] [], Exec [Load ''ax''] [], Exec [Load ''ax''] []]"

definition cell_4 :: "stmt list" where
  "cell_4 =
     [Exec [Load ''pd_dataset'', Load ''len'', Load ''pd_dataset''] [],
      Exec [Load ''pd_dataset''] [''ax''],
      Exec [Load ''ax''] [], Exec [Load ''ax''] [], Exec [Load ''ax''] [], Exec [Load ''ax''] []]"

definition cell_5 :: "stmt list" where
  "cell_5 =
     [Exec [Load ''print'', Load ''pd_dataset''] [],
      Exec [Load ''print'', Load ''train_dataset''] [],
      Exec [Load ''print'', Load ''test_dataset''] [],
      Exec [Load ''print'', Load ''val_dataset''] []]"

definition cell_6 :: "stmt list" where
  "cell_6 =
     [Exec [Load ''DataLoader'', Load ''dataset'', Load ''functools'', Load ''tokenize_batch'',
            Load ''tokenizer''] [''train_dataloader''],
      Exec [Load ''DataLoader'', Load ''dataset'', Load ''functools'', Load ''tokenize_batch'',
            Load ''tokenizer''] [''val_dataloader'']]"

definition cell_7 :: "stmt list" where
  "cell_7 =
     [Exec [Load ''LightningModel'', Load ''num_labels''] [''lightning_model''],
      Exec [Load ''pl''] [''model_checkpoint''],
      Exec [Load ''pl'', Load ''pl'', Load ''model_checkpoint''] [''camembert_trainer''],
      Exec [Load ''camembert_trainer'', Load ''lightning_model'', Load ''train_dataloader'',
            Load ''val_dataloader'', Call ''tokenize_batch''] [],
      Exec [Load ''LightningModel'', Load ''model_checkpoint''] [''lightning_model'']]"

definition cell_8 :: "stmt list" where
  "cell_8 =
     [Exec [Load ''dict'', Load ''zip'', Load ''range''] [''ID_TO_LABEL''],
      Exec [Load ''list'', Load ''ID_TO_LABEL''] [''label_names''],
      Exec [Load ''camembert_trainer'', Load ''lightning_model'', Load ''val_dataloader'',
            Call ''tokenize_batch''] [''camembert_preds''],
      Exec [Load ''torch'', Load ''camembert_preds''] [''camembert_preds'']]"

definition cell_9 :: "stmt list" where
  "cell_9 =
     [Exec [Load ''plot_confusion_matrix'', Load ''dataset'', Load ''camembert_preds'',
            Load ''label_names'', Call ''plot_confusion_matrix''] []]"

definition cell_10 :: "stmt list" where
  "cell_10 =
     [Exec [Load ''print'', Load ''classification_report'', Load ''dataset'',
            Load ''camembert_preds'', Load ''label_names''] []]"

definition cell_11 :: "stmt list" where
  "cell_11 =
     [Exec [Load ''camembert_preds'', Load ''np'', Load ''dataset''] [''wrong_preds''],
      Exec [Load ''dataset'', Load ''wrong_preds''] [''wrong''],
      Exec [Load ''pd'', Load ''camembert_preds'', Load ''wrong_preds'', Load ''ID_TO_LABEL'']
           [''preds''],
      Exec [Load ''preds'', Load ''wrong''] [],
      Exec [Load ''wrong''] [],
      Exec [Load ''wrong''] []]"

definition cell_12 :: "stmt list" where
  "cell_12 =
     [Exec [Load ''DataLoader'', Load ''dataset'', Load ''functools'', Load ''tokenize_batch'',
            Load ''tokenizer''] [''test_dataloader''],
      Exec [Load ''camembert_trainer'', Load ''lightning_model'', Load ''test_dataloader'',
            Call ''tokenize_batch''] [''preds''],
      Exec [Load ''torch'', Load ''preds''] [''preds''],
      Exec [Load ''dataset''] [''test_df''],
      Exec [Load ''preds'', Load ''test_df''] [],
      Exec [Load ''test_df'', Load ''label_names'', Load ''test_df''] [],
      Exec [Load ''test_df''] [],
      Exec [Load ''test_df''] [],
      Exec [Load ''test_df''] []]"

definition notebook :: "stmt list list" where
  "notebook = [cell_1, cell_2, cell_3, cell_4, cell_5, cell_6, cell_7, cell_8, cell_9, cell_10,
               cell_11, cell_12]"

section \<open>Example inputs\<close>

text \<open>Small concrete inputs on which the statements below are evaluated.\<close>

definition ex_tokenizer :: tokenizer where
  "ex_tokenizer = \<lparr>encode = (\<lambda>s. 5 # map (\<lambda>c. int (of_char c)) s @ [6]), pad_token_id = 1\<rparr>"

definition ex_samples :: "sample list" where
  "ex_samples =
     [[''sentence'' \<mapsto> StrV ''Oui'', ''label'' \<mapsto> IntV 0, ''difficulty'' \<mapsto> StrV ''A1''],
      [''sentence'' \<mapsto> StrV ''Bonjour'', ''label'' \<mapsto> IntV 3, ''difficulty'' \<mapsto> StrV ''B2'']]"

definition ex_split :: "(string \<times> int \<times> string) list \<Rightarrow> table" where
  "ex_split rows =
     \<lparr>num_rows = length rows,
      data = [(''sentence'', map (\<lambda>(s, l, d). StrV s) rows), (''label'', map (\<lambda>(s, l, d). IntV l) rows),
              (''difficulty'', map (\<lambda>(s, l, d). StrV d) rows)]\<rparr>"

definition ex_train :: table where
  "ex_train =
     ex_split [(''Oui'', 0, ''A1''), (''Bonjour'', 1, ''A2''), (''Je mange'', 2, ''B1''),
               (''Il pleut'', 3, ''B2''), (''Nous partons'', 4, ''C1''), (''Soit'', 5, ''C2''),
               (''Non'', 0, ''A1''), (''Merci'', 1, ''A2'')]"

definition ex_validation :: table where
  "ex_validation = ex_split [(''Salut'', 1, ''A2''), (''Tu viens'', 2, ''B1'')]"

definition ex_test :: table where
  "ex_test = ex_split [(''Oui'', 0, ''A1''), (''Bonjour'', 0, ''A1''), (''Merci beaucoup'', 0, ''A1'')]"

definition ex_dataset :: dataset_dict where
  "ex_dataset = [(''train'', ex_train), (''validation'', ex_validation), (''test'', ex_test)]"

definition ex_history :: "nat epoch_end list" where
  "ex_history =
     [\<lparr>ep_model = 10, ep_metrics = [(''valid/acc'', 0.4)]\<rparr>,
      \<lparr>ep_model = 11, ep_metrics = [(''valid/acc'', 0.6)]\<rparr>,
      \<lparr>ep_model = 12, ep_metrics = [(''valid/acc'', 0.5)]\<rparr>]"

text \<open>A dataset dict whose keys come in the order train, validation, test.\<close>

definition ex_ordered :: dataset_dict where
  "ex_ordered = [(''train'', ex_train), (''validation'', ex_validation), (''test'', ex_test)]"

text \<open>
  A stand-in for the model's \<open>predict_step\<close>: one label id per sentence of the batch, the
  length of the sentence modulo six.
\<close>

fun ex_label :: "cell \<Rightarrow> int" where
  "ex_label (StrV s) = int (length s) mod 6"
| "ex_label (IntV _) = 0"

definition ex_predict_step :: "nat \<Rightarrow> batch \<Rightarrow> int list" where
  "ex_predict_step model b = map ex_label (sentences b)"

definition ex_csv :: csv_file where
  "ex_csv = \<lparr>csv_header = [''id'', ''difficulty''],
             csv_lines = [(0, [StrV ''B2'']), (1, [StrV ''A2'']), (2, [StrV ''B1''])]\<rparr>"

definition ex_df :: dataframe where
  "ex_df = \<lparr>index_name = Some ''id'', index_len = 3,
            columns = [(''difficulty'', [StrV ''B2'', StrV ''A2'', StrV ''B1''])]\<rparr>"

definition ex_train_dl :: dataloader where
  "ex_train_dl = \<lparr>dl_dataset = ex_train, batch_size = 16, shuffle = True,
                  collate_fn = (\<lambda>samples. tokenize_batch samples ex_tokenizer)\<rparr>"

definition ex_val_dl :: dataloader where
  "ex_val_dl = \<lparr>dl_dataset = ex_validation, batch_size = 16, shuffle = False,
                collate_fn = (\<lambda>samples. tokenize_batch samples ex_tokenizer)\<rparr>"

definition ex_test_dl :: dataloader where
  "ex_test_dl = \<lparr>dl_dataset = ex_test, batch_size = 16, shuffle = False,
                 collate_fn = (\<lambda>samples. tokenize_batch samples ex_tokenizer)\<rparr>"

text \<open>
  A split of eighteen rows, more than one batch: row \<open>i\<close> has the sentence of \<open>i + 1\<close>
  letters, and \<open>ex_long_preds\<close> lists \<open>(i + 3) mod 6\<close> for the eighteen rows. A stand-in for a model that reads only the tensors of the batch: one label id
  per row of \<open>attention_mask\<close>, the number of attended tokens modulo six.
\<close>

definition ex_long_split :: table where
  "ex_long_split =
     \<lparr>num_rows = 18,
      data =
        [(''sentence'',
          [StrV ''a'', StrV ''aa'', StrV ''aaa'', StrV ''aaaa'', StrV ''aaaaa'',
           StrV ''aaaaaa'', StrV ''aaaaaaa'', StrV ''aaaaaaaa'', StrV ''aaaaaaaaa'',
           StrV ''aaaaaaaaaa'', StrV ''aaaaaaaaaaa'', StrV ''aaaaaaaaaaaa'',
           StrV ''aaaaaaaaaaaaa'', StrV ''aaaaaaaaaaaaaa'', StrV ''aaaaaaaaaaaaaaa'',
           StrV ''aaaaaaaaaaaaaaaa'', StrV ''aaaaaaaaaaaaaaaaa'',
           StrV ''aaaaaaaaaaaaaaaaaa'']),
         (''label'',
          [IntV 0, IntV 0, IntV 0, IntV 0, IntV 0, IntV 0, IntV 0, IntV 0, IntV 0, IntV 0,
           IntV 0, IntV 0, IntV 0, IntV 0, IntV 0, IntV 0, IntV 0, IntV 0]),
         (''difficulty'',
          [StrV ''A1'', StrV ''A1'', StrV ''A1'', StrV ''A1'', StrV ''A1'', StrV ''A1'',
           StrV ''A1'', StrV ''A1'', StrV ''A1'', StrV ''A1'', StrV ''A1'', StrV ''A1'',
           StrV ''A1'', StrV ''A1'', StrV ''A1'', StrV ''A1'', StrV ''A1'', StrV ''A1''])]\<rparr>"

definition ex_long_dataset :: dataset_dict where
  "ex_long_dataset =
     [(''train'', ex_train), (''validation'', ex_long_split), (''test'', ex_long_split)]"

definition ex_long_dl :: dataloader where
  "ex_long_dl = \<lparr>dl_dataset = ex_long_split, batch_size = 16, shuffle = False,
                 collate_fn = (\<lambda>samples. tokenize_batch samples ex_tokenizer)\<rparr>"

definition ex_tensor_step :: "nat \<Rightarrow> batch \<Rightarrow> int list" where
  "ex_tensor_step model b = map (\<lambda>mask. sum_list mask mod 6) (attention_mask b)"

definition ex_long_preds :: "int list" where
  "ex_long_preds = [3, 4, 5, 0, 1, 2, 3, 4, 5, 0, 1, 2, 3, 4, 5, 0, 1, 2]"

definition ex_long_csv :: csv_file where
  "ex_long_csv =
     \<lparr>csv_header = [''id'', ''difficulty''],
      csv_lines =
        [(0, [StrV ''B2'']), (1, [StrV ''C1'']), (2, [StrV ''C2'']), (3, [StrV ''A1'']),
         (4, [StrV ''A2'']), (5, [StrV ''B1'']), (6, [StrV ''B2'']), (7, [StrV ''C1'']),
         (8, [StrV ''C2'']), (9, [StrV ''A1'']), (10, [StrV ''A2'']), (11, [StrV ''B1'']),
         (12, [StrV ''B2'']), (13, [StrV ''C1'']), (14, [StrV ''C2'']), (15, [StrV ''A1'']),
         (16, [StrV ''A2'']), (17, [StrV ''B1''])]\<rparr>"

section \<open>Properties\<close>

subsection \<open>The label names\<close>

lemma label_names_eq: "label_names = [''A1'', ''A2'', ''B1'', ''B2'', ''C1'', ''C2'']"
  by (simp add: label_names_def dict_values_def ID_TO_LABEL_def upt_rec)

lemma length_label_names: "length label_names = 6"
  by (simp add: label_names_eq)

lemma length_unique: "length (unique xs) = card (set xs)"
  by (simp add: unique_def length_remdups_card_conv)

subsection \<open>Exceptions as values\<close>

lemma on_ok_Inr_iff: "on_ok m f = Inr r \<longleftrightarrow> (\<exists>v. m = Inr v \<and> f v = Inr r)"
  by (cases m) (simp_all add: on_ok_def)

lemma on_ok_Inr [simp]: "on_ok (Inr v) f = f v"
  by (simp add: on_ok_def)

lemma on_ok_Inl [simp]: "on_ok (Inl e) f = Inl e"
  by (simp add: on_ok_def)

lemma dict_getitem_Inr_iff: "dict_getitem d k = Inr v \<longleftrightarrow> map_of d k = Some v"
  by (simp add: dict_getitem_def split: option.splits)

lemma collect_Inr_iff: "collect f xs = Inr ys \<longleftrightarrow> map f xs = map Inr ys"
proof (induction xs arbitrary: ys)
  case Nil
  then show ?case by auto
next
  case (Cons x xs)
  show ?case
  proof (cases "f x")
    case (Inl e)
    then show ?thesis by (cases ys) auto
  next
    case (Inr y)
    then show ?thesis using Cons.IH
      by (cases ys) (auto simp add: on_ok_Inr_iff)
  qed
qed

lemma collect_length: "collect f xs = Inr ys \<Longrightarrow> length ys = length xs"
  by (metis collect_Inr_iff length_map)

subsection \<open>The head size and the label names\<close>

lemma pd_dataset_lookup: "map_of (pd_dataset dataset) k = map_option to_pandas (map_of dataset k)"
  by (simp add: pd_dataset_def map_of_map)

lemma num_labels_Inr_iff:
  "num_labels dataset = Inr n \<longleftrightarrow>
     (\<exists>train col. map_of dataset ''train'' = Some train \<and> map_of (data train) ''label'' = Some col
        \<and> n = card (set col))"
  by (auto simp add: num_labels_def on_ok_Inr_iff dict_getitem_Inr_iff pd_dataset_lookup
      df_getitem_def to_pandas_def length_unique)

text \<open>
  Claim C10. The head size passed to the model is \<open>num_labels\<close>, the number of distinct
  values of the \<open>label\<close> column of the train split; it is the size of the hard-coded
  list of six label names exactly when the train split has six distinct labels; and the
  lookup \<^verbatim>\<open>label_names[x]\<close> raises \<open>IndexError\<close> for every id \<open>x\<close> that is at least the
  length of \<open>label_names\<close>.
\<close>

theorem head_size_is_distinct_train_labels:
  assumes "lightning_model_args dataset = Inr args"
  shows "\<exists>train col. map_of dataset ''train'' = Some train
           \<and> map_of (data train) ''label'' = Some col
           \<and> num_labels dataset = Inr (head_size args)
           \<and> head_size args = card (set col)
           \<and> (head_size args = length label_names \<longleftrightarrow> card (set col) = 6)
           \<and> (\<forall>x. int (length label_names) \<le> x \<longrightarrow> list_getitem label_names x = Inl IndexError)
           \<and> (\<forall>x. int (length label_names) \<le> x \<longrightarrow> label_of (IntV x) = Inl IndexError)"
proof -
  from assms obtain n where n: "num_labels dataset = Inr n" and a: "head_size args = n"
    by (auto simp add: lightning_model_args_def on_ok_Inr_iff)
  from n obtain train col where t: "map_of dataset ''train'' = Some train"
      and c: "map_of (data train) ''label'' = Some col" and k: "n = card (set col)"
    by (auto simp add: num_labels_Inr_iff)
  have oor: "\<forall>x. int (length label_names) \<le> x \<longrightarrow> list_getitem label_names x = Inl IndexError"
    by (simp add: list_getitem_def)
  show ?thesis
    using t c k a n oor by (simp add: length_label_names)
qed

lemma ex_dataset_args:
  "lightning_model_args ex_dataset =
     Inr \<lparr>model_name = ''camembert-base'', head_size = 6, lr = Decimal 3 (- 5), weight_decay = 2\<rparr>"
  by (simp add: ex_dataset_def ex_train_def ex_split_def lightning_model_args_def num_labels_def
      pd_dataset_def dict_getitem_def df_getitem_def to_pandas_def unique_def)

theorem head_size_is_distinct_train_labels_witness:
  "lightning_model_args ex_dataset =
     Inr \<lparr>model_name = ''camembert-base'', head_size = 6, lr = Decimal 3 (- 5), weight_decay = 2\<rparr>
   \<and> num_labels ex_dataset = Inr 6
   \<and> int (length label_names) \<le> 6
   \<and> list_getitem label_names 6 = Inl IndexError
   \<and> label_of (IntV 6) = Inl IndexError"
  using head_size_is_distinct_train_labels [OF ex_dataset_args]
  by (auto simp add: ex_dataset_args length_label_names)

subsection \<open>The collate function\<close>

lemma sample_getitem_column:
  assumes "map (\<lambda>s. s k) samples = map Some vs"
  shows "collect (\<lambda>sample. sample_getitem sample k) samples = Inr vs"
proof -
  have "map (\<lambda>sample. sample_getitem sample k) samples = map Inr vs"
    using assms
  proof (induction samples arbitrary: vs)
    case Nil
    then show ?case by simp
  next
    case (Cons s samples)
    then show ?case by (cases vs) (auto simp add: sample_getitem_def)
  qed
  then show ?thesis by (simp add: collect_Inr_iff)
qed

lemma collect_str_of: "collect str_of (map StrV ts) = Inr ts"
  by (simp add: collect_Inr_iff)

lemma int64_iff: "int64 n \<longleftrightarrow> - (2 ^ 63) \<le> n \<and> n < 2 ^ 63"
  by (simp add: int64_def)

lemma collect_int_of: "list_all int64 ls \<Longrightarrow> collect int_of (map IntV ls) = Inr ls"
  by (simp add: collect_Inr_iff list_all_iff)

lemma torch_tensor_Inr_iff: "torch_tensor cs = Inr ls \<longleftrightarrow> cs = map IntV ls \<and> list_all int64 ls"
proof -
  have "map int_of cs = map Inr ls \<longleftrightarrow> cs = map IntV ls \<and> list_all int64 ls"
  proof (induction cs arbitrary: ls)
    case Nil
    then show ?case by auto
  next
    case (Cons c cs)
    then show ?case by (cases ls; cases c) auto
  qed
  then show ?thesis by (simp add: torch_tensor_def collect_Inr_iff)
qed

lemma length_le_longest: "r \<in> set rows \<Longrightarrow> length r \<le> longest rows"
  by (induction rows) (auto simp add: longest_def)

lemma longest_eq_Max: "rows \<noteq> [] \<Longrightarrow> longest rows = Max (set (map length rows))"
proof (induction rows)
  case Nil
  then show ?case by simp
next
  case (Cons r rows)
  show ?case
  proof (cases "rows = []")
    case True
    then show ?thesis by (simp add: longest_def)
  next
    case False
    with Cons.IH have "longest rows = Max (set (map length rows))" by simp
    moreover have "longest (r # rows) = max (length r) (longest rows)"
      by (simp add: longest_def)
    ultimately show ?thesis using False by simp
  qed
qed

lemma length_pad_to: "length xs \<le> n \<Longrightarrow> length (pad_to n p xs) = n"
  by (simp add: pad_to_def)

lemma has_shape_padded:
  "has_shape (map (\<lambda>r. pad_to (longest rows) p (g r)) rows) (length rows) (longest rows)"
  if "\<And>r. length (g r) = length r"
  using that by (simp add: has_shape_def list_all_iff length_pad_to length_le_longest)

lemma tokenize_batch_returns:
  assumes nonempty: "samples \<noteq> []"
    and sent: "map (\<lambda>s. s ''sentence'') samples = map (\<lambda>t. Some (StrV t)) texts"
    and labs: "map (\<lambda>s. s ''label'') samples = map (\<lambda>l. Some (IntV l)) ls"
    and fits: "list_all int64 ls"
    and diff: "map (\<lambda>s. s ''difficulty'') samples = map Some ds"
  shows "tokenize_batch samples tok =
      Inr \<lparr>input_ids = map (pad_to (longest (map (encode tok) texts)) (pad_token_id tok))
                         (map (encode tok) texts),
           attention_mask = map (\<lambda>r. pad_to (longest (map (encode tok) texts)) 0
                                       (replicate (length r) 1)) (map (encode tok) texts),
           labels = ls, str_labels = ds, sentences = map StrV texts\<rparr>"
proof -
  let ?ids = "map (encode tok) texts"
  let ?m = "longest ?ids"
  have len_t: "length texts = length samples" using sent by (metis length_map)
  have texts_ne: "texts \<noteq> []" using nonempty len_t by auto
  have c1: "collect (\<lambda>sample. sample_getitem sample ''sentence'') samples = Inr (map StrV texts)"
    using sent by (intro sample_getitem_column) (simp add: comp_def)
  have c2: "collect (\<lambda>sample. sample_getitem sample ''label'') samples = Inr (map IntV ls)"
    using labs by (intro sample_getitem_column) (simp add: comp_def)
  have c3: "collect (\<lambda>sample. sample_getitem sample ''difficulty'') samples = Inr ds"
    using diff by (rule sample_getitem_column)
  have tt: "torch_tensor (map IntV ls) = Inr ls"
    using fits by (simp add: torch_tensor_Inr_iff)
  have tk: "tokenizer_call tok (map StrV texts) =
      Inr \<lparr>tok_input_ids = map (pad_to ?m (pad_token_id tok)) ?ids,
           tok_attention_mask = map (\<lambda>r. pad_to ?m 0 (replicate (length r) 1)) ?ids\<rparr>"
    using texts_ne by (simp add: tokenizer_call_def collect_str_of Let_def)
  show ?thesis
    by (simp add: tokenize_batch_def c1 c2 c3 tk tt)
qed

text \<open>A label that does not fit a 64-bit integer makes the collate function raise.\<close>

lemma tokenize_batch_overflow:
  "tokenize_batch [[''sentence'' \<mapsto> StrV ''Oui'', ''label'' \<mapsto> IntV 9223372036854775808,
                    ''difficulty'' \<mapsto> StrV ''A1'']] tok = Inl RuntimeError"
  by (simp add: tokenize_batch_def sample_getitem_def torch_tensor_def int64_def)

text \<open>
  Claim C3. On a non-empty batch of samples whose \<open>sentence\<close> fields are the strings
  \<open>texts\<close>, whose \<open>label\<close> fields are the integers \<open>ls\<close>, each one a 64-bit integer as the
  label column of the dataset has them, and whose \<open>difficulty\<close> fields are \<open>ds\<close>,
  \<open>tokenize_batch\<close> returns a dict with \<open>sentences\<close> the sentences in input order,
  \<open>labels\<close> the labels in input order, one per sample, \<open>str_labels\<close> the difficulties in
  input order, and \<open>input_ids\<close> and \<open>attention_mask\<close> two tensors of the same shape: one
  row per sample, every row padded to the longest encoded sentence of the batch.
\<close>

theorem tokenize_batch_fields:
  assumes nonempty: "samples \<noteq> []"
    and sent: "map (\<lambda>s. s ''sentence'') samples = map (\<lambda>t. Some (StrV t)) texts"
    and labs: "map (\<lambda>s. s ''label'') samples = map (\<lambda>l. Some (IntV l)) ls"
    and fits: "list_all int64 ls"
    and diff: "map (\<lambda>s. s ''difficulty'') samples = map Some ds"
  shows "\<exists>b m. tokenize_batch samples tok = Inr b
           \<and> sentences b = map StrV texts
           \<and> labels b = ls \<and> length (labels b) = length samples
           \<and> str_labels b = ds
           \<and> m = Max (set (map (\<lambda>t. length (encode tok t)) texts))
           \<and> input_ids b = map (\<lambda>t. pad_to m (pad_token_id tok) (encode tok t)) texts
           \<and> attention_mask b = map (\<lambda>t. pad_to m 0 (replicate (length (encode tok t)) 1)) texts
           \<and> has_shape (input_ids b) (length samples) m
           \<and> has_shape (attention_mask b) (length samples) m"
proof -
  let ?ids = "map (encode tok) texts"
  let ?m = "longest ?ids"
  have len_t: "length texts = length samples" and len_l: "length ls = length samples"
    using sent labs by (metis length_map)+
  have texts_ne: "texts \<noteq> []" using nonempty len_t by auto
  note run = tokenize_batch_returns [OF nonempty sent labs fits diff, of tok]
  have m: "?m = Max (set (map (\<lambda>t. length (encode tok t)) texts))"
    using texts_ne by (simp add: longest_eq_Max comp_def)
  have s1: "has_shape (map (pad_to ?m (pad_token_id tok)) ?ids) (length samples) ?m"
    using has_shape_padded [of "\<lambda>r. r" ?ids "pad_token_id tok"] len_t by simp
  have s2: "has_shape (map (\<lambda>r. pad_to ?m 0 (replicate (length r) (1::int))) ?ids) (length samples) ?m"
    using has_shape_padded [of "\<lambda>r. replicate (length r) (1::int)" ?ids 0] len_t by simp
  show ?thesis
    using run m s1 s2 len_l by (simp add: comp_def)
qed

theorem tokenize_batch_fields_witness:
  "ex_samples \<noteq> []
   \<and> map (\<lambda>s. s ''sentence'') ex_samples = map (\<lambda>t. Some (StrV t)) [''Oui'', ''Bonjour'']
   \<and> map (\<lambda>s. s ''label'') ex_samples = map (\<lambda>l. Some (IntV l)) [0, 3]
   \<and> list_all int64 [0, 3]
   \<and> map (\<lambda>s. s ''difficulty'') ex_samples = map Some [StrV ''A1'', StrV ''B2'']
   \<and> (\<exists>b. tokenize_batch ex_samples ex_tokenizer = Inr b
        \<and> sentences b = [StrV ''Oui'', StrV ''Bonjour'']
        \<and> labels b = [0, 3]
        \<and> str_labels b = [StrV ''A1'', StrV ''B2'']
        \<and> input_ids b = [[5, 79, 117, 105, 6, 1, 1, 1, 1], [5, 66, 111, 110, 106, 111, 117, 114, 6]]
        \<and> attention_mask b = [[1, 1, 1, 1, 1, 0, 0, 0, 0], [1, 1, 1, 1, 1, 1, 1, 1, 1]]
        \<and> has_shape (input_ids b) 2 9 \<and> has_shape (attention_mask b) 2 9)"
  using tokenize_batch_fields [of ex_samples "[''Oui'', ''Bonjour'']" "[0, 3]"
      "[StrV ''A1'', StrV ''B2'']" ex_tokenizer]
  by (auto simp add: ex_samples_def ex_tokenizer_def pad_to_def eval_nat_numeral int64_def)

subsection \<open>Batches and the order of predictions\<close>

lemma concat_batch_sampler: "concat (batch_sampler bs batch xs) = batch @ xs"
  by (induction xs arbitrary: batch) (simp_all add: Let_def)

lemma batch_sampler_nonempty: "b \<in> set (batch_sampler bs batch xs) \<Longrightarrow> b \<noteq> []"
  by (induction xs arbitrary: batch) (auto simp add: Let_def split: if_splits)

lemma batch_sampler_le:
  "length batch < bs \<Longrightarrow> b \<in> set (batch_sampler bs batch xs) \<Longrightarrow> length b \<le> bs"
proof (induction xs arbitrary: batch)
  case Nil
  then show ?case by (auto split: if_splits)
next
  case (Cons x xs)
  show ?case
  proof (cases "length (batch @ [x]) = bs")
    case True
    with Cons.prems have "b = batch @ [x] \<or> b \<in> set (batch_sampler bs [] xs)"
      by (auto simp add: Let_def)
    then show ?thesis
    proof
      assume "b = batch @ [x]"
      with True show ?thesis by simp
    next
      assume "b \<in> set (batch_sampler bs [] xs)"
      moreover have "length ([]::'a list) < bs" using Cons.prems(1) by simp
      ultimately show ?thesis by (rule Cons.IH [rotated])
    qed
  next
    case False
    with Cons.prems have "b \<in> set (batch_sampler bs (batch @ [x]) xs)"
      and "length (batch @ [x]) < bs"
      by (auto simp add: Let_def)
    then show ?thesis by (rule Cons.IH [rotated])
  qed
qed

lemma batch_sampler_full:
  "length batch < bs \<Longrightarrow> Suc k < length (batch_sampler bs batch xs) \<Longrightarrow>
     length (batch_sampler bs batch xs ! k) = bs"
proof (induction xs arbitrary: batch k)
  case Nil
  then show ?case by (auto split: if_splits)
next
  case (Cons x xs)
  show ?case
  proof (cases "length (batch @ [x]) = bs")
    case True
    then have eq: "batch_sampler bs batch (x # xs) = (batch @ [x]) # batch_sampler bs [] xs"
      by (simp add: Let_def)
    show ?thesis
    proof (cases k)
      case 0
      with eq True show ?thesis by simp
    next
      case (Suc k')
      have "length ([]::'a list) < bs" using Cons.prems(1) by simp
      moreover have "Suc k' < length (batch_sampler bs [] xs)"
        using Cons.prems(2) eq Suc by simp
      ultimately have "length (batch_sampler bs [] xs ! k') = bs" by (rule Cons.IH)
      with eq Suc show ?thesis by simp
    qed
  next
    case False
    then have eq: "batch_sampler bs batch (x # xs) = batch_sampler bs (batch @ [x]) xs"
      by (simp add: Let_def)
    have "length (batch @ [x]) < bs" using False Cons.prems(1) by simp
    moreover have "Suc k < length (batch_sampler bs (batch @ [x]) xs)"
      using Cons.prems(2) eq by simp
    ultimately show ?thesis unfolding eq by (rule Cons.IH)
  qed
qed

text \<open>Position \<open>i\<close> of a concatenation of chunks that are all full but the last.\<close>

lemma concat_nth_chunked:
  assumes "0 < bs"
    and "\<forall>p \<in> set P. length p \<le> bs"
    and "\<forall>k. Suc k < length P \<longrightarrow> length (P ! k) = bs"
    and "i < length (concat P)"
  shows "i div bs < length P \<and> i mod bs < length (P ! (i div bs))
         \<and> concat P ! i = P ! (i div bs) ! (i mod bs)"
  using assms
proof (induction P arbitrary: i)
  case Nil
  then show ?case by simp
next
  case (Cons p P)
  show ?case
  proof (cases "i < length p")
    case True
    moreover have "length p \<le> bs" using Cons.prems(2) by simp
    ultimately show ?thesis by (simp add: nth_append)
  next
    case False
    then have "P \<noteq> []" using Cons.prems(4) by auto
    then have full: "length p = bs" using Cons.prems(3) [rule_format, of 0] by (cases P) auto
    let ?j = "i - bs"
    have j: "?j < length (concat P)" using Cons.prems(4) False full by simp
    have a2: "\<forall>p \<in> set P. length p \<le> bs" using Cons.prems(2) by simp
    have a3: "\<forall>k. Suc k < length P \<longrightarrow> length (P ! k) = bs"
      using Cons.prems(3) by (metis Suc_less_eq length_Cons nth_Cons_Suc)
    have IH: "?j div bs < length P \<and> ?j mod bs < length (P ! (?j div bs))
         \<and> concat P ! ?j = P ! (?j div bs) ! (?j mod bs)"
      by (rule Cons.IH [OF Cons.prems(1) a2 a3 j])
    have ge: "bs \<le> i" using False full by simp
    have d: "i div bs = Suc (?j div bs)" using ge Cons.prems(1) by (simp add: le_div_geq)
    have m: "i mod bs = ?j mod bs" using ge by (simp add: le_mod_geq)
    have c: "concat (p # P) ! i = concat P ! ?j" using False full by (simp add: nth_append)
    show ?thesis using IH d m c by simp
  qed
qed

lemma length_concat_same:
  "list_all2 (\<lambda>p q. length p = length q) P Q \<Longrightarrow> length (concat P) = length (concat Q)"
  by (induction rule: list_all2_induct) simp_all

lemma sample_getitem_column_iff:
  "collect (\<lambda>sample. sample_getitem sample k) samples = Inr vs
     \<longleftrightarrow> map (\<lambda>s. s k) samples = map Some vs"
proof -
  have "map (\<lambda>sample. sample_getitem sample k) samples = map Inr vs
          \<longleftrightarrow> map (\<lambda>s. s k) samples = map Some vs"
  proof (induction samples arbitrary: vs)
    case Nil
    then show ?case by simp
  next
    case (Cons s samples)
    then show ?case
      by (cases vs) (auto simp add: sample_getitem_def split: option.splits)
  qed
  then show ?thesis by (simp add: collect_Inr_iff)
qed

lemma tokenize_batch_Inr:
  assumes "tokenize_batch samples tok = Inr b"
  shows "map (\<lambda>s. s ''sentence'') samples = map Some (sentences b)"
    and "map (\<lambda>s. s ''difficulty'') samples = map Some (str_labels b)"
    and "map (\<lambda>s. s ''label'') samples = map (\<lambda>l. Some (IntV l)) (labels b)"
    and "samples \<noteq> []"
    and "length (input_ids b) = length samples \<and> length (attention_mask b) = length samples"
proof -
  from assms obtain sents ls lbls strs tokens where
    t: "collect (\<lambda>sample. sample_getitem sample ''sentence'') samples = Inr sents"
    and l: "collect (\<lambda>sample. sample_getitem sample ''label'') samples = Inr ls"
    and tt: "torch_tensor ls = Inr lbls"
    and d: "collect (\<lambda>sample. sample_getitem sample ''difficulty'') samples = Inr strs"
    and k: "tokenizer_call tok sents = Inr tokens"
    and b: "b = \<lparr>input_ids = tok_input_ids tokens, attention_mask = tok_attention_mask tokens,
          labels = lbls, str_labels = strs, sentences = sents\<rparr>"
    unfolding tokenize_batch_def on_ok_Inr_iff by blast
  show "map (\<lambda>s. s ''sentence'') samples = map Some (sentences b)"
    using t b by (simp add: sample_getitem_column_iff)
  show "map (\<lambda>s. s ''difficulty'') samples = map Some (str_labels b)"
    using d b by (simp add: sample_getitem_column_iff)
  have "ls = map IntV lbls" using tt by (simp add: torch_tensor_Inr_iff)
  then show "map (\<lambda>s. s ''label'') samples = map (\<lambda>l. Some (IntV l)) (labels b)"
    using l b by (simp add: sample_getitem_column_iff comp_def)
  have "sents \<noteq> []" using k by (auto simp add: tokenizer_call_def split: if_splits)
  then show "samples \<noteq> []" using t by auto
  have "length sents = length samples" using t by (rule collect_length)
  moreover have "length (tok_input_ids tokens) = length sents
      \<and> length (tok_attention_mask tokens) = length sents"
    using k collect_length [of str_of sents]
    by (auto simp add: tokenizer_call_def on_ok_Inr_iff Let_def split: if_splits)
  ultimately show "length (input_ids b) = length samples
      \<and> length (attention_mask b) = length samples"
    using b by simp
qed

lemma predict_cat_aligned:
  assumes bs: "0 < batch_size dl"
    and coll: "collate_fn dl = (\<lambda>samples. tokenize_batch samples tok)"
    and one: "\<And>samples b. tokenize_batch samples tok = Inr b \<Longrightarrow>
                length (predict_step model b) = length samples"
    and run: "predict_cat predict_step model dl perm = Inr preds"
    and i: "i < length (sampler dl perm)"
  shows "length preds = length (sampler dl perm)
     \<and> i div batch_size dl < length (index_batches dl perm)
     \<and> index_batches dl perm ! (i div batch_size dl) ! (i mod batch_size dl) = sampler dl perm ! i
     \<and> (\<exists>b. fetch dl (index_batches dl perm ! (i div batch_size dl)) = Inr b
          \<and> i mod batch_size dl < length (sentences b)
          \<and> table_row (dl_dataset dl) (sampler dl perm ! i) ''sentence''
               = Some (sentences b ! (i mod batch_size dl))
          \<and> table_row (dl_dataset dl) (sampler dl perm ! i) ''label''
               = Some (IntV (labels b ! (i mod batch_size dl)))
          \<and> preds ! i = predict_step model b ! (i mod batch_size dl))"
proof -
  let ?bs = "batch_size dl"
  let ?order = "sampler dl perm"
  let ?Q = "index_batches dl perm"
  from run obtain batches where it: "dataloader_iter dl perm = Inr batches"
    and preds: "preds = concat (map (predict_step model) batches)"
    by (auto simp add: predict_cat_def trainer_predict_def torch_cat_def on_ok_Inr_iff
        split: if_splits)
  let ?P = "map (predict_step model) batches"
  have fetched: "map (fetch dl) ?Q = map Inr batches"
    using it by (simp add: dataloader_iter_def collect_Inr_iff)
  then have len: "length batches = length ?Q" by (metis length_map)
  have fetch_k: "fetch dl (?Q ! k) = Inr (batches ! k)" if "k < length ?Q" for k
    using fetched that len by (metis nth_map)
  have sent_k: "map (\<lambda>j. table_row (dl_dataset dl) j ''sentence'') (?Q ! k)
                  = map Some (sentences (batches ! k))" if "k < length ?Q" for k
    using tokenize_batch_Inr(1) [of "map (table_row (dl_dataset dl)) (?Q ! k)" tok "batches ! k"]
      fetch_k [OF that] coll by (simp add: fetch_def comp_def)
  have len_k: "length (sentences (batches ! k)) = length (?Q ! k)" if "k < length ?Q" for k
    using sent_k [OF that] by (metis length_map)
  have lab_k: "map (\<lambda>j. table_row (dl_dataset dl) j ''label'') (?Q ! k)
                  = map (\<lambda>l. Some (IntV l)) (labels (batches ! k))" if "k < length ?Q" for k
    using tokenize_batch_Inr(3) [of "map (table_row (dl_dataset dl)) (?Q ! k)" tok "batches ! k"]
      fetch_k [OF that] coll by (simp add: fetch_def comp_def)
  have len_lab_k: "length (labels (batches ! k)) = length (?Q ! k)" if "k < length ?Q" for k
    using lab_k [OF that] by (metis length_map)
  have one_k: "length (predict_step model (batches ! k)) = length (?Q ! k)" if "k < length ?Q" for k
    using one [of "map (table_row (dl_dataset dl)) (?Q ! k)" "batches ! k"]
      fetch_k [OF that] coll by (simp add: fetch_def)
  have same: "list_all2 (\<lambda>p q. length p = length q) ?P ?Q"
    using len one_k by (simp add: list_all2_conv_all_nth)
  have catQ: "concat ?Q = ?order"
    by (simp add: index_batches_def concat_batch_sampler)
  have len_preds: "length preds = length ?order"
    using length_concat_same [OF same] catQ preds by simp
  have leQ: "\<forall>q \<in> set ?Q. length q \<le> ?bs"
    using bs by (auto simp add: index_batches_def intro: batch_sampler_le [of "[]"])
  have fullQ: "\<forall>k. Suc k < length ?Q \<longrightarrow> length (?Q ! k) = ?bs"
    using bs by (auto simp add: index_batches_def intro: batch_sampler_full [of "[]"])
  have lenP: "length (?P ! k) = length (?Q ! k)" if "k < length ?Q" for k
    using that len one_k by simp
  have leP: "\<forall>p \<in> set ?P. length p \<le> ?bs"
  proof
    fix p assume "p \<in> set ?P"
    then obtain k where k: "k < length ?P" and p: "p = ?P ! k" by (metis in_set_conv_nth)
    then have "k < length ?Q" using len by simp
    then show "length p \<le> ?bs" using lenP leQ p by (metis nth_mem)
  qed
  have fullP: "\<forall>k. Suc k < length ?P \<longrightarrow> length (?P ! k) = ?bs"
    using fullQ lenP len by simp
  have iQ: "i < length (concat ?Q)" using i catQ by simp
  have iP: "i < length (concat ?P)" using i len_preds preds by simp
  note Qi = concat_nth_chunked [OF bs leQ fullQ iQ]
  note Pi = concat_nth_chunked [OF bs leP fullP iP]
  let ?k = "i div ?bs" and ?j = "i mod ?bs"
  have k: "?k < length ?Q" using Qi by simp
  have j: "?j < length (?Q ! ?k)" using Qi by simp
  have row: "?Q ! ?k ! ?j = ?order ! i" using Qi catQ by simp
  have "map (\<lambda>j. table_row (dl_dataset dl) j ''sentence'') (?Q ! ?k) ! ?j
          = map Some (sentences (batches ! ?k)) ! ?j"
    using sent_k [OF k] by simp
  then have sent: "table_row (dl_dataset dl) (?order ! i) ''sentence''
                     = Some (sentences (batches ! ?k) ! ?j)"
    using j row len_k [OF k] by simp
  have "map (\<lambda>j. table_row (dl_dataset dl) j ''label'') (?Q ! ?k) ! ?j
          = map (\<lambda>l. Some (IntV l)) (labels (batches ! ?k)) ! ?j"
    using lab_k [OF k] by simp
  then have lab: "table_row (dl_dataset dl) (?order ! i) ''label''
                     = Some (IntV (labels (batches ! ?k) ! ?j))"
    using j row len_lab_k [OF k] by simp
  have pred: "preds ! i = predict_step model (batches ! ?k) ! ?j"
    using Pi preds k len by simp
  show ?thesis
    using len_preds k row fetch_k [OF k] j len_k [OF k] sent lab pred by simp
qed

subsection \<open>The submission dataframe\<close>

lemma names_set_column: "map fst (set_column c vals cols) = map fst cols"
  by (induction cols) auto

lemma map_of_set_column_other: "c' \<noteq> c \<Longrightarrow> map_of (set_column c vals cols) c' = map_of cols c'"
  by (induction cols) auto

lemma map_of_set_column_same:
  "c \<in> fst ` set cols \<Longrightarrow> map_of (set_column c vals cols) c = Some vals"
  by (induction cols) force+

lemma df_setattr_Inr:
  assumes "df_setattr df c vals = Inr df'"
  shows "index_name df' = index_name df" and "index_len df' = index_len df"
    and "map fst (columns df') = map fst (columns df)"
    and "c' \<noteq> c \<Longrightarrow> map_of (columns df') c' = map_of (columns df) c'"
    and "has_column df c \<Longrightarrow> length vals = index_len df \<and> map_of (columns df') c = Some vals"
    and "\<not> has_column df c \<Longrightarrow> df' = df"
proof -
  show "index_name df' = index_name df" and "index_len df' = index_len df"
    and "map fst (columns df') = map fst (columns df)"
    using assms by (auto simp add: df_setattr_def names_set_column split: if_splits)
  show "map_of (columns df') c' = map_of (columns df) c'" if "c' \<noteq> c"
    using assms that by (auto simp add: df_setattr_def map_of_set_column_other split: if_splits)
  show "\<not> has_column df c \<Longrightarrow> df' = df"
    using assms by (simp add: df_setattr_def)
  show "length vals = index_len df \<and> map_of (columns df') c = Some vals" if h: "has_column df c"
  proof -
    from assms h have l: "length vals = index_len df"
      and d: "df' = df\<lparr>columns := set_column c vals (columns df)\<rparr>"
      by (auto simp add: df_setattr_def split: if_splits)
    from h have "c \<in> fst ` set (columns df)" by (simp add: has_column_def)
    then have "map_of (set_column c vals (columns df)) c = Some vals"
      by (rule map_of_set_column_same)
    with l d show ?thesis by simp
  qed
qed

lemma names_filter_columns:
  "map fst (filter (\<lambda>(n, col). P n) cols) = filter P (map fst cols)"
  by (induction cols) auto

lemma map_of_filter_columns:
  "map_of (filter (\<lambda>(n, col). P n) cols) c = (if P c then map_of cols c else None)"
  by (induction cols) auto

lemma df_drop_Inr:
  assumes "df_drop df cs = Inr df'"
  shows "\<forall>c \<in> set cs. has_column df c"
    and "columns df' = filter (\<lambda>(n, col). n \<notin> set cs) (columns df)"
    and "index_name df' = index_name df" and "index_len df' = index_len df"
  using assms
  by (auto simp add: df_drop_def filter_empty_conv split: list.splits)

lemma has_column_map_of: "has_column df c \<longleftrightarrow> map_of (columns df) c \<noteq> None"
  by (simp add: has_column_def map_of_eq_None_iff)

lemma collect_label_of:
  "collect label_of (map IntV preds) = Inr difficulty \<longleftrightarrow>
     (\<exists>names. collect (list_getitem label_names) preds = Inr names \<and> difficulty = map StrV names)"
proof (induction preds arbitrary: difficulty)
  case Nil
  then show ?case by auto
next
  case (Cons p preds)
  show ?case
  proof (cases "list_getitem label_names p")
    case (Inl e)
    then show ?thesis by simp
  next
    case (Inr s)
    then show ?thesis using Cons.IH
      by (auto simp add: on_ok_Inr_iff)
  qed
qed

lemma format_submission_Inr:
  assumes run: "format_submission test preds = Inr df"
  shows "length preds = num_rows test"
    and "index_name df = Some ''id''"
    and "index_len df = num_rows test"
    and "map fst (columns df) = filter (\<lambda>n. n \<notin> {''sentence'', ''label''}) (map fst (data test))"
    and "map_of (data test) ''sentence'' \<noteq> None \<and> map_of (data test) ''label'' \<noteq> None"
    and "c \<notin> {''sentence'', ''label'', ''difficulty''} \<Longrightarrow> map_of (columns df) c = map_of (data test) c"
    and "\<exists>names. collect (list_getitem label_names) preds = Inr names
           \<and> (map_of (data test) ''difficulty'' \<noteq> None
                \<longrightarrow> map_of (columns df) ''difficulty'' = Some (map StrV names))
           \<and> (map_of (data test) ''difficulty'' = None
                \<longrightarrow> map_of (columns df) ''difficulty'' = None)"
proof -
  let ?df0 = "to_pandas test"
  from run obtain df1 difficulty df2 where
    s1: "df_setattr ?df0 ''label'' (map IntV preds) = Inr df1"
    and s2: "df_attr_apply df1 ''label'' label_of = Inr difficulty"
    and s3: "df_setattr df1 ''difficulty'' difficulty = Inr df2"
    and s4: "df_drop (df2\<lparr>index_name := Some ''id''\<rparr>) [''sentence'', ''label''] = Inr df"
    unfolding format_submission_def Let_def on_ok_Inr_iff by blast
  note a1 = df_setattr_Inr [OF s1] and a3 = df_setattr_Inr [OF s3] and a4 = df_drop_Inr [OF s4]
  from s2 obtain col where col: "map_of (columns df1) ''label'' = Some col"
    and app: "collect label_of col = Inr difficulty"
    by (auto simp add: df_attr_apply_def split: option.splits)
  have "has_column df1 ''label''" using col by (simp add: has_column_map_of)
  then have hl: "has_column ?df0 ''label''" using a1(3) by (simp add: has_column_def)
  from a1(5) [OF hl] have len: "length preds = index_len ?df0"
    and "map_of (columns df1) ''label'' = Some (map IntV preds)" by simp_all
  with col have "col = map IntV preds" by simp
  with app obtain names where names: "collect (list_getitem label_names) preds = Inr names"
    and diff: "difficulty = map StrV names"
    by (auto simp add: collect_label_of)
  show "length preds = num_rows test" using len by (simp add: to_pandas_def)
  show "index_name df = Some ''id''" using a4(3) by simp
  show "index_len df = num_rows test" using a4(4) a3(2) a1(2) by (simp add: to_pandas_def)
  have cols: "columns df = filter (\<lambda>(n, col). n \<notin> {''sentence'', ''label''}) (columns df2)"
    using a4(2) by simp
  show "map fst (columns df) = filter (\<lambda>n. n \<notin> {''sentence'', ''label''}) (map fst (data test))"
    using a3(3) a1(3) by (simp add: cols names_filter_columns to_pandas_def)
  have "has_column df2 ''sentence''" using a4(1) by (simp add: has_column_def)
  then have "has_column ?df0 ''sentence''" using a3(3) a1(3) by (simp add: has_column_def)
  then show "map_of (data test) ''sentence'' \<noteq> None \<and> map_of (data test) ''label'' \<noteq> None"
    using hl by (simp add: has_column_map_of to_pandas_def)
  show "map_of (columns df) c = map_of (data test) c"
    if "c \<notin> {''sentence'', ''label'', ''difficulty''}"
    using that a3(4) [of c] a1(4) [of c] by (simp add: cols map_of_filter_columns to_pandas_def)
  have d0: "has_column df1 ''difficulty'' \<longleftrightarrow> map_of (data test) ''difficulty'' \<noteq> None"
    using a1(3) by (simp add: has_column_def to_pandas_def map_of_eq_None_iff)
  have yes: "map_of (columns df) ''difficulty'' = Some (map StrV names)"
    if "map_of (data test) ''difficulty'' \<noteq> None"
    using a3(5) that d0 diff by (simp add: cols map_of_filter_columns)
  have no: "map_of (columns df) ''difficulty'' = None"
    if "map_of (data test) ''difficulty'' = None"
  proof -
    have "df2 = df1" using a3(6) that d0 by simp
    then have "map_of (columns df2) ''difficulty'' = None"
      using that d0 by (simp add: has_column_map_of)
    then show ?thesis by (simp add: cols map_of_filter_columns)
  qed
  show "\<exists>names. collect (list_getitem label_names) preds = Inr names
           \<and> (map_of (data test) ''difficulty'' \<noteq> None
                \<longrightarrow> map_of (columns df) ''difficulty'' = Some (map StrV names))
           \<and> (map_of (data test) ''difficulty'' = None
                \<longrightarrow> map_of (columns df) ''difficulty'' = None)"
    using names yes no by (intro exI [of _ names]) simp
qed

lemma csv_field_to_csv:
  "i < index_len df \<Longrightarrow>
     csv_field (to_csv df) i c = map_option (\<lambda>col. col ! i) (map_of (columns df) c)"
proof -
  assume i: "i < index_len df"
  have z: "zip (map fst cols) (map (\<lambda>(n, col). col ! i) cols) = map (\<lambda>(n, col). (n, col ! i)) cols"
    for cols :: "(string \<times> cell list) list"
    by (induction cols) auto
  show ?thesis using i
    by (simp add: csv_field_def to_csv_def z map_of_map)
qed

lemma to_csv_lines:
  "length (csv_lines (to_csv df)) = index_len df"
  "i < index_len df \<Longrightarrow> fst (csv_lines (to_csv df) ! i) = i"
  by (simp_all add: to_csv_def)

subsection \<open>The reloaded model\<close>

lemma on_ok_assoc: "on_ok (on_ok m f) g = on_ok m (\<lambda>x. on_ok (f x) g)"
  by (cases m) simp_all

lemma run_epochs_snoc:
  "run_epochs cfg st k (eps @ [ep]) =
     on_ok (run_epochs cfg st k eps) (\<lambda>st'. on_validation_end cfg st' (k + length eps) ep)"
proof (induction eps arbitrary: st k)
  case Nil
  then show ?case by (cases "on_validation_end cfg st k ep") simp_all
next
  case (Cons e eps)
  then show ?case by (simp add: on_ok_assoc)
qed

text \<open>After a non-empty run the callback holds the first epoch with the highest score.\<close>

lemma trainer_fit_best:
  assumes "history \<noteq> []"
    and "\<forall>ep \<in> set history. map_of (ep_metrics ep) ''valid/acc'' = Some (acc ep)"
  shows "\<exists>j < length history.
           trainer_fit camembert_trainer history =
             Inr \<lparr>best_model_path = Some j, best_model_score = Some (acc (history ! j)),
                  ckpt_files = [(j, ep_model (history ! j))]\<rparr>
           \<and> (\<forall>i < length history. acc (history ! i) \<le> acc (history ! j))
           \<and> (\<forall>i < j. acc (history ! i) < acc (history ! j))"
  using assms
proof (induction history rule: rev_induct)
  case Nil
  then show ?case by simp
next
  case (snoc ep eps)
  have logged: "map_of (ep_metrics ep) ''valid/acc'' = Some (acc ep)"
    using snoc.prems(2) by simp
  have cfg: "ckpt_monitor (checkpoint_callback camembert_trainer) = ''valid/acc''"
    "ckpt_mode (checkpoint_callback camembert_trainer) = ''max''"
    by (simp_all add: camembert_trainer_def model_checkpoint_def)
  show ?case
  proof (cases "eps = []")
    case True
    then have "trainer_fit camembert_trainer (eps @ [ep]) =
        Inr \<lparr>best_model_path = Some 0, best_model_score = Some (acc ep),
             ckpt_files = [(0, ep_model ep)]\<rparr>"
      by (simp add: trainer_fit_def on_validation_end_def cfg logged)
    then show ?thesis using True by (intro exI [of _ 0]) simp
  next
    case False
    then obtain j where j: "j < length eps"
      and fit: "trainer_fit camembert_trainer eps =
             Inr \<lparr>best_model_path = Some j, best_model_score = Some (acc (eps ! j)),
                  ckpt_files = [(j, ep_model (eps ! j))]\<rparr>"
      and top: "\<forall>i < length eps. acc (eps ! i) \<le> acc (eps ! j)"
      and first: "\<forall>i < j. acc (eps ! i) < acc (eps ! j)"
      using snoc.IH snoc.prems(2) by auto
    let ?n = "length eps"
    have nth_old: "(eps @ [ep]) ! i = eps ! i" if "i < ?n" for i
      using that by (simp add: nth_append)
    show ?thesis
    proof (cases "acc (eps ! j) < acc ep")
      case True
      have "trainer_fit camembert_trainer (eps @ [ep]) =
          Inr \<lparr>best_model_path = Some ?n, best_model_score = Some (acc ep),
               ckpt_files = [(?n, ep_model ep)]\<rparr>"
        using fit True
        by (simp add: trainer_fit_def run_epochs_snoc on_validation_end_def cfg logged
            monitor_op_def)
      moreover have "\<forall>i < length (eps @ [ep]). acc ((eps @ [ep]) ! i) \<le> acc ep"
        using top True by (auto simp add: nth_append less_Suc_eq intro: order_trans less_imp_le)
      moreover have "\<forall>i < ?n. acc ((eps @ [ep]) ! i) < acc ep"
        using top True by (auto simp add: nth_append intro: le_less_trans)
      ultimately show ?thesis
        by (intro exI [of _ ?n]) simp
    next
      case False
      have "trainer_fit camembert_trainer (eps @ [ep]) =
             Inr \<lparr>best_model_path = Some j, best_model_score = Some (acc (eps ! j)),
                  ckpt_files = [(j, ep_model (eps ! j))]\<rparr>"
        using fit False
        by (simp add: trainer_fit_def run_epochs_snoc on_validation_end_def cfg logged
            monitor_op_def)
      moreover have "\<forall>i < length (eps @ [ep]). acc ((eps @ [ep]) ! i) \<le> acc (eps ! j)"
        using top False by (auto simp add: nth_append less_Suc_eq)
      ultimately show ?thesis
        using j first by (intro exI [of _ j]) (simp add: nth_append)
    qed
  qed
qed

text \<open>
  Claim C7. When at least one validation epoch ran and every epoch logged \<open>valid/acc\<close>,
  the variable \<open>lightning_model\<close> after code cell 7 is the model of the checkpoint with
  the maximum monitored validation accuracy (the first epoch that reached it), whichever
  epoch came last, and both later predictions, on the validation split in code cell 8
  and on the test split for the submission in code cell 12, are made with that model.
\<close>

theorem reloaded_model_is_best_checkpoint:
  assumes "history \<noteq> []"
    and "\<forall>ep \<in> set history. map_of (ep_metrics ep) ''valid/acc'' = Some (acc ep)"
  shows "\<exists>j < length history.
           lightning_model history = Inr (ep_model (history ! j))
           \<and> (\<forall>i < length history. acc (history ! i) \<le> acc (history ! j))
           \<and> (\<forall>i < j. acc (history ! i) < acc (history ! j))
           \<and> camembert_preds predict_step history dataset tok =
               on_ok (val_dataloader dataset tok) (\<lambda>dl.
                 predict_cat predict_step (ep_model (history ! j)) dl [])
           \<and> preds_csv predict_step history dataset tok =
               submission_cell predict_step (ep_model (history ! j)) dataset tok"
proof -
  from trainer_fit_best [OF assms] obtain j where j: "j < length history"
    and fit: "trainer_fit camembert_trainer history =
             Inr \<lparr>best_model_path = Some j, best_model_score = Some (acc (history ! j)),
                  ckpt_files = [(j, ep_model (history ! j))]\<rparr>"
    and top: "\<forall>i < length history. acc (history ! i) \<le> acc (history ! j)"
    and first: "\<forall>i < j. acc (history ! i) < acc (history ! j)"
    by blast
  have model: "lightning_model history = Inr (ep_model (history ! j))"
    by (simp add: lightning_model_def fit load_from_checkpoint_def)
  have "camembert_preds predict_step history dataset tok =
               on_ok (val_dataloader dataset tok) (\<lambda>dl.
                 predict_cat predict_step (ep_model (history ! j)) dl [])"
    by (simp add: camembert_preds_def model)
  moreover have "preds_csv predict_step history dataset tok =
               submission_cell predict_step (ep_model (history ! j)) dataset tok"
    by (simp add: preds_csv_def model)
  ultimately show ?thesis using j model top first by blast
qed

lemma ex_history_logged:
  "\<forall>ep \<in> set ex_history. map_of (ep_metrics ep) ''valid/acc'' = Some (snd (hd (ep_metrics ep)))"
  by (simp add: ex_history_def)

lemma ex_history_reload: "lightning_model ex_history = Inr 11"
  by (simp add: ex_history_def lightning_model_def trainer_fit_def camembert_trainer_def
      model_checkpoint_def on_validation_end_def monitor_op_def load_from_checkpoint_def)

theorem reloaded_model_is_best_checkpoint_witness:
  "ex_history \<noteq> []
   \<and> list_all (\<lambda>ep. map_of (ep_metrics ep) ''valid/acc'' = Some (snd (hd (ep_metrics ep))))
        ex_history
   \<and> lightning_model ex_history = Inr (ep_model (ex_history ! 1))
   \<and> ep_model (ex_history ! 1) \<noteq> ep_model (last ex_history)
   \<and> preds_csv ex_predict_step ex_history ex_dataset ex_tokenizer =
       submission_cell ex_predict_step (ep_model (ex_history ! 1)) ex_dataset ex_tokenizer"
proof -
  have ne: "ex_history \<noteq> []" by (simp add: ex_history_def)
  from reloaded_model_is_best_checkpoint [OF ne ex_history_logged,
      of ex_predict_step ex_dataset ex_tokenizer]
  obtain j where "j < length ex_history"
    and m: "lightning_model ex_history = Inr (ep_model (ex_history ! j))"
    and p: "preds_csv ex_predict_step ex_history ex_dataset ex_tokenizer =
       submission_cell ex_predict_step (ep_model (ex_history ! j)) ex_dataset ex_tokenizer"
    by blast
  have one: "ep_model (ex_history ! 1) = 11" and l: "ep_model (last ex_history) = 12"
    by (simp_all add: ex_history_def)
  from m have "ep_model (ex_history ! j) = 11" by (simp add: ex_history_reload)
  with p one have "preds_csv ex_predict_step ex_history ex_dataset ex_tokenizer =
       submission_cell ex_predict_step (ep_model (ex_history ! 1)) ex_dataset ex_tokenizer"
    by simp
  then show ?thesis using ne ex_history_logged ex_history_reload one l
    by (simp add: list_all_iff)
qed

subsection \<open>The splits bound by position\<close>

text \<open>
  Claim C4. The three variables are bound by position. On a dataset dict whose keys come
  in the order train, validation, test, \<open>test_dataset\<close> is the validation split and
  \<open>val_dataset\<close> is the test split.
\<close>

theorem unpack_splits_by_position:
  "unpack_splits ex_ordered =
     Inr \<lparr>train_dataset = ex_train, test_dataset = ex_validation, val_dataset = ex_test\<rparr>
   \<and> dict_getitem ex_ordered ''validation'' = Inr ex_validation
   \<and> dict_getitem ex_ordered ''test'' = Inr ex_test
   \<and> ex_validation \<noteq> ex_test"
  by (simp add: unpack_splits_def ex_ordered_def dict_values_def dict_getitem_def
      ex_validation_def ex_test_def ex_split_def)

text \<open>The names match the splits when the keys come in the order train, test, validation.\<close>

lemma unpack_splits_matching_order:
  assumes "map fst dataset = [''train'', ''test'', ''validation'']"
  shows "\<exists>vars. unpack_splits dataset = Inr vars
      \<and> dict_getitem dataset ''train'' = Inr (train_dataset vars)
      \<and> dict_getitem dataset ''test'' = Inr (test_dataset vars)
      \<and> dict_getitem dataset ''validation'' = Inr (val_dataset vars)"
proof -
  from assms obtain a b c where "dataset = [(''train'', a), (''test'', b), (''validation'', c)]"
    by (auto simp add: map_eq_Cons_conv)
  then show ?thesis
    by (simp add: unpack_splits_def dict_values_def dict_getitem_def)
qed

subsection \<open>Names read before they are bound\<close>

text \<open>
  Claim C5. Run once from the first cell, the notebook stops with \<open>NameError\<close> on the
  name \<open>np\<close>: no cell imports or assigns it before code cell 11 reads it.
\<close>

theorem np_is_unbound:
  "run_cells builtins notebook = Inl (NameError ''np'')"
  by code_simp

text \<open>
  The ten cells before it run, and \<open>np\<close> is the only name that is missing: with \<open>np\<close>
  bound at the start every cell runs.
\<close>

lemma first_ten_cells_run: "\<not> isl (run_cells builtins (take 10 notebook))"
  by code_simp

lemma np_is_the_only_unbound_name: "\<not> isl (run_cells ((''np'', []) # builtins) notebook)"
  by code_simp

subsection \<open>The submission file\<close>

lemma table_row_eq: "table_row t i c = map_option (\<lambda>col. col ! i) (map_of (data t) c)"
  by (simp add: table_row_def split: option.splits)

lemma dataloader_Inr:
  "train_dataloader dataset tok = Inr dl \<Longrightarrow>
     map_of dataset ''train'' = Some (dl_dataset dl) \<and> batch_size dl = 16 \<and> shuffle dl
     \<and> collate_fn dl = (\<lambda>samples. tokenize_batch samples tok)"
  "val_dataloader dataset tok = Inr dl \<Longrightarrow>
     map_of dataset ''validation'' = Some (dl_dataset dl) \<and> batch_size dl = 16 \<and> \<not> shuffle dl
     \<and> collate_fn dl = (\<lambda>samples. tokenize_batch samples tok)"
  "test_dataloader dataset tok = Inr dl \<Longrightarrow>
     map_of dataset ''test'' = Some (dl_dataset dl) \<and> batch_size dl = 16 \<and> \<not> shuffle dl
     \<and> collate_fn dl = (\<lambda>samples. tokenize_batch samples tok)"
  by (auto simp add: train_dataloader_def val_dataloader_def test_dataloader_def on_ok_Inr_iff
      dict_getitem_Inr_iff)

lemma sampler_in_order:
  "\<not> shuffle dl \<Longrightarrow> length (sampler dl perm) = num_rows (dl_dataset dl)"
  "\<not> shuffle dl \<Longrightarrow> i < num_rows (dl_dataset dl) \<Longrightarrow> sampler dl perm ! i = i"
  by (simp_all add: sampler_def)

text \<open>A prediction run that succeeds has read the three fields of some row.\<close>

lemma predict_cat_columns:
  assumes coll: "collate_fn dl = (\<lambda>samples. tokenize_batch samples tok)"
    and run: "predict_cat predict_step model dl perm = Inr preds"
  shows "map_of (data (dl_dataset dl)) ''difficulty'' \<noteq> None"
proof -
  from run obtain batches where it: "dataloader_iter dl perm = Inr batches"
    and ne: "batches \<noteq> []"
    by (auto simp add: predict_cat_def trainer_predict_def torch_cat_def on_ok_Inr_iff
        split: if_splits)
  have fetched: "map (fetch dl) (index_batches dl perm) = map Inr batches"
    using it by (simp add: dataloader_iter_def collect_Inr_iff)
  with ne obtain idxs rest b bs where q: "index_batches dl perm = idxs # rest"
    and b: "batches = b # bs" and f: "fetch dl idxs = Inr b"
    by (cases "index_batches dl perm"; cases batches) auto
  let ?samples = "map (table_row (dl_dataset dl)) idxs"
  have tb: "tokenize_batch ?samples tok = Inr b" using f coll by (simp add: fetch_def)
  from tokenize_batch_Inr(4) [OF tb] obtain j js where idxs: "idxs = j # js"
    by (cases idxs) auto
  from tokenize_batch_Inr(2) [OF tb] idxs
  have "table_row (dl_dataset dl) j ''difficulty'' \<noteq> None"
    by (cases "str_labels b") auto
  then show ?thesis by (auto simp add: table_row_eq)
qed

lemma submission_cell_Inr:
  assumes "submission_cell predict_step model dataset tok = Inr f"
  shows "\<exists>dl preds df. test_dataloader dataset tok = Inr dl
           \<and> predict_cat predict_step model dl [] = Inr preds
           \<and> format_submission (dl_dataset dl) preds = Inr df
           \<and> f = to_csv df"
proof -
  from assms obtain dl preds test df where d: "test_dataloader dataset tok = Inr dl"
    and p: "predict_cat predict_step model dl [] = Inr preds"
    and t: "dict_getitem dataset ''test'' = Inr test"
    and s: "format_submission test preds = Inr df" and f: "f = to_csv df"
    unfolding submission_cell_def on_ok_Inr_iff by blast
  from dataloader_Inr(3) [OF d] t have "test = dl_dataset dl"
    by (simp add: dict_getitem_Inr_iff)
  with d p s f show ?thesis by blast
qed

lemma collect_nth:
  "collect f xs = Inr ys \<Longrightarrow> i < length xs \<Longrightarrow> f (xs ! i) = Inr (ys ! i)"
  by (metis collect_Inr_iff length_map nth_map)

lemma label_lookup_nonneg:
  assumes "list_getitem label_names p = Inr s" and "0 \<le> p"
  shows "p < 6 \<and> s = [''A1'', ''A2'', ''B1'', ''B2'', ''C1'', ''C2''] ! nat p"
  using assms by (auto simp add: list_getitem_def label_names_eq split: if_splits)

lemma ID_TO_LABEL_lookup:
  "i < 6 \<Longrightarrow> map_of ID_TO_LABEL (int i) = Some ([''A1'', ''A2'', ''B1'', ''B2'', ''C1'', ''C2''] ! i)"
proof -
  assume "i < 6"
  then have "i \<in> {0, 1, 2, 3, 4, 5}" by auto
  then show ?thesis by (auto simp add: ID_TO_LABEL_def upt_rec)
qed

text \<open>
  Claim C1. In a submission that is written, the \<open>difficulty\<close> value of line \<open>i\<close> is, for
  the label id \<open>p\<close> predicted for test row \<open>i\<close> (a class index, so not negative), the
  \<open>p\<close>-th element of (A1, A2, B1, B2, C1, C2), and \<open>p\<close> is below six; there are exactly six
  level names, and \<open>ID_TO_LABEL\<close> maps the id \<open>k\<close> to the \<open>k\<close>-th of them.
\<close>

theorem difficulty_is_pth_level:
  assumes run: "submission_cell predict_step model dataset tok = Inr f"
  shows "\<exists>dl preds. test_dataloader dataset tok = Inr dl
           \<and> predict_cat predict_step model dl [] = Inr preds
           \<and> length (csv_lines f) = length preds
           \<and> (\<forall>i < length preds. 0 \<le> preds ! i \<longrightarrow>
                 preds ! i < 6
                 \<and> csv_field f i ''difficulty'' =
                     Some (StrV ([''A1'', ''A2'', ''B1'', ''B2'', ''C1'', ''C2''] ! nat (preds ! i))))
           \<and> label_names = [''A1'', ''A2'', ''B1'', ''B2'', ''C1'', ''C2'']
           \<and> length ID_TO_LABEL = 6
           \<and> (\<forall>k < 6. map_of ID_TO_LABEL (int k) = Some (label_names ! k))"
proof -
  from submission_cell_Inr [OF run] obtain dl preds df where
    d: "test_dataloader dataset tok = Inr dl"
    and p: "predict_cat predict_step model dl [] = Inr preds"
    and s: "format_submission (dl_dataset dl) preds = Inr df"
    and f: "f = to_csv df"
    by blast
  note fs = format_submission_Inr [OF s]
  have coll: "collate_fn dl = (\<lambda>samples. tokenize_batch samples tok)"
    using dataloader_Inr(3) [OF d] by simp
  have has: "map_of (data (dl_dataset dl)) ''difficulty'' \<noteq> None"
    by (rule predict_cat_columns [OF coll p])
  from fs(7) has obtain names where
    names: "collect (list_getitem label_names) preds = Inr names"
    and col: "map_of (columns df) ''difficulty'' = Some (map StrV names)"
    by blast
  have len_names: "length names = length preds" using names by (rule collect_length)
  have len: "length (csv_lines f) = length preds"
    using f fs(1) fs(3) by (simp add: to_csv_lines)
  have rows: "preds ! i < 6 \<and> csv_field f i ''difficulty'' =
        Some (StrV ([''A1'', ''A2'', ''B1'', ''B2'', ''C1'', ''C2''] ! nat (preds ! i)))"
    if i: "i < length preds" and nn: "0 \<le> preds ! i" for i
  proof -
    have "list_getitem label_names (preds ! i) = Inr (names ! i)"
      using names i by (rule collect_nth)
    from label_lookup_nonneg [OF this nn]
    have lt: "preds ! i < 6"
      and nm: "names ! i = [''A1'', ''A2'', ''B1'', ''B2'', ''C1'', ''C2''] ! nat (preds ! i)"
      by simp_all
    have "i < index_len df" using i fs(1) fs(3) by simp
    then have "csv_field f i ''difficulty'' = Some (map StrV names ! i)"
      using f col by (simp add: csv_field_to_csv)
    with nm i len_names lt show ?thesis by simp
  qed
  have ids: "\<forall>k < 6. map_of ID_TO_LABEL (int k) = Some (label_names ! k)"
    by (simp add: ID_TO_LABEL_lookup label_names_eq)
  have "length ID_TO_LABEL = 6" by (simp add: ID_TO_LABEL_def)
  with d p len rows ids label_names_eq show ?thesis by blast
qed

lemma ex_submission:
  "submission_cell ex_predict_step 11 ex_dataset ex_tokenizer = Inr ex_csv"
  by code_simp

lemma ex_test_preds:
  "on_ok (test_dataloader ex_dataset ex_tokenizer) (\<lambda>dl. predict_cat ex_predict_step 11 dl [])
     = Inr [3, 1, 2]"
  by code_simp

theorem difficulty_is_pth_level_witness:
  "submission_cell ex_predict_step 11 ex_dataset ex_tokenizer = Inr ex_csv
   \<and> (\<exists>dl. test_dataloader ex_dataset ex_tokenizer = Inr dl
          \<and> predict_cat ex_predict_step 11 dl [] = Inr [3, 1, 2])
   \<and> (2::nat) < length [3, 1, 2::int] \<and> (0::int) \<le> [3, 1, 2] ! 2
   \<and> csv_field ex_csv 2 ''difficulty''
        = Some (StrV ([''A1'', ''A2'', ''B1'', ''B2'', ''C1'', ''C2''] ! nat 2))"
proof -
  from difficulty_is_pth_level [OF ex_submission] obtain dl preds where
    d: "test_dataloader ex_dataset ex_tokenizer = Inr dl"
    and p: "predict_cat ex_predict_step 11 dl [] = Inr preds"
    and r: "\<forall>i < length preds. 0 \<le> preds ! i \<longrightarrow> preds ! i < 6
       \<and> csv_field ex_csv i ''difficulty''
        = Some (StrV ([''A1'', ''A2'', ''B1'', ''B2'', ''C1'', ''C2''] ! nat (preds ! i)))"
    by blast
  from ex_test_preds d p have preds: "preds = [3, 1, 2]" by simp
  from r [rule_format, of 2] preds
  have "csv_field ex_csv 2 ''difficulty''
        = Some (StrV ([''A1'', ''A2'', ''B1'', ''B2'', ''C1'', ''C2''] ! nat 2))"
    by simp
  with d p preds show ?thesis using ex_submission by simp
qed

text \<open>Prediction and formatting succeed on a readable split.\<close>

lemma collect_total:
  "(\<And>x. x \<in> set xs \<Longrightarrow> \<exists>y. f x = Inr y) \<Longrightarrow> \<exists>ys. collect f xs = Inr ys"
proof (induction xs)
  case Nil
  then show ?case by simp
next
  case (Cons x xs)
  then obtain y ys where "f x = Inr y" and "collect f xs = Inr ys"
    by (metis list.set_intros(1) list.set_intros(2))
  then show ?case by simp
qed

lemma cells_as_strings: "list_all is_sentence cs \<Longrightarrow> \<exists>ts. cs = map StrV ts"
proof (induction cs)
  case Nil
  then show ?case by simp
next
  case (Cons c cs)
  then obtain ts where "cs = map StrV ts" by auto
  moreover from Cons.prems obtain t where "c = StrV t" by (cases c) auto
  ultimately have "c # cs = map StrV (t # ts)" by simp
  then show ?case by (rule exI)
qed

lemma cells_as_labels: "list_all is_label cs \<Longrightarrow> \<exists>ls. cs = map IntV ls \<and> list_all int64 ls"
proof (induction cs)
  case Nil
  then show ?case by simp
next
  case (Cons c cs)
  then obtain ls where "cs = map IntV ls" and "list_all int64 ls" by auto
  moreover from Cons.prems obtain l where "c = IntV l" and "int64 l" by (cases c) auto
  ultimately have "c # cs = map IntV (l # ls) \<and> list_all int64 (l # ls)" by simp
  then show ?case by (rule exI)
qed

lemma readable_splitD:
  assumes "readable_split t"
  shows "\<exists>texts ls ds. map_of (data t) ''sentence'' = Some (map StrV texts)
           \<and> map_of (data t) ''label'' = Some (map IntV ls)
           \<and> map_of (data t) ''difficulty'' = Some ds
           \<and> length texts = num_rows t \<and> length ls = num_rows t \<and> length ds = num_rows t
           \<and> list_all int64 ls \<and> 0 < num_rows t"
proof -
  from assms obtain ss cs ds where s: "map_of (data t) ''sentence'' = Some ss"
    and l: "map_of (data t) ''label'' = Some cs" and d: "map_of (data t) ''difficulty'' = Some ds"
    and len: "length ss = num_rows t" "length cs = num_rows t" "length ds = num_rows t"
    and ok: "list_all is_sentence ss" "list_all is_label cs" and n: "0 < num_rows t"
    by (auto simp add: readable_split_def split: option.splits)
  from ok obtain texts ls where "ss = map StrV texts" and "cs = map IntV ls" and "list_all int64 ls"
    using cells_as_strings cells_as_labels by blast
  with s l d len n show ?thesis by auto
qed

lemma fetch_total:
  assumes rd: "readable_split t" and ne: "idxs \<noteq> []" and inr: "\<forall>j \<in> set idxs. j < num_rows t"
  shows "\<exists>b. tokenize_batch (map (table_row t) idxs) tok = Inr b"
proof -
  from readable_splitD [OF rd] obtain texts ls ds where
    s: "map_of (data t) ''sentence'' = Some (map StrV texts)"
    and l: "map_of (data t) ''label'' = Some (map IntV ls)"
    and d: "map_of (data t) ''difficulty'' = Some ds"
    and len: "length texts = num_rows t" "length ls = num_rows t" "length ds = num_rows t"
    and fits: "list_all int64 ls"
    by blast
  let ?samples = "map (table_row t) idxs"
  have "?samples \<noteq> []" using ne by simp
  moreover have "map (\<lambda>s. s ''sentence'') ?samples = map (\<lambda>t. Some (StrV t)) (map ((!) texts) idxs)"
    using inr s len by (simp add: table_row_eq)
  moreover have "map (\<lambda>s. s ''label'') ?samples = map (\<lambda>l. Some (IntV l)) (map ((!) ls) idxs)"
    using inr l len by (simp add: table_row_eq)
  moreover have "list_all int64 (map ((!) ls) idxs)"
    using inr fits len by (simp add: list_all_iff)
  moreover have "map (\<lambda>s. s ''difficulty'') ?samples = map Some (map ((!) ds) idxs)"
    using d by (simp add: table_row_eq)
  ultimately show ?thesis
    using tokenize_batch_returns by blast
qed

lemma predict_cat_total:
  assumes bs: "0 < batch_size dl" and sh: "\<not> shuffle dl"
    and coll: "collate_fn dl = (\<lambda>samples. tokenize_batch samples tok)"
    and rd: "readable_split (dl_dataset dl)"
  shows "\<exists>preds. predict_cat predict_step model dl perm = Inr preds"
proof -
  let ?n = "num_rows (dl_dataset dl)"
  let ?Q = "index_batches dl perm"
  have n: "0 < ?n" using rd by (simp add: readable_split_def)
  have catQ: "concat ?Q = [0..<?n]"
    using sh by (simp add: index_batches_def concat_batch_sampler sampler_def)
  have each: "\<exists>b. fetch dl q = Inr b" if q: "q \<in> set ?Q" for q
  proof -
    have "q \<noteq> []" using q by (auto simp add: index_batches_def dest: batch_sampler_nonempty)
    moreover have "set q \<subseteq> set (concat ?Q)" using q by auto
    then have "\<forall>j \<in> set q. j < ?n" unfolding catQ by auto
    ultimately show ?thesis using fetch_total [OF rd] coll by (simp add: fetch_def)
  qed
  then obtain batches where it: "dataloader_iter dl perm = Inr batches"
    unfolding dataloader_iter_def using collect_total [of ?Q "fetch dl"] by blast
  have "?Q \<noteq> []"
  proof
    assume "?Q = []"
    then have "[0..<?n] = []" using catQ by simp
    with n show False by simp
  qed
  moreover have "length batches = length ?Q"
    using it unfolding dataloader_iter_def by (rule collect_length)
  ultimately have "batches \<noteq> []" by auto
  then show ?thesis
    using it by (simp add: predict_cat_def trainer_predict_def torch_cat_def)
qed

lemma predict_cat_elems:
  assumes coll: "collate_fn dl = (\<lambda>samples. tokenize_batch samples tok)"
    and run: "predict_cat predict_step model dl perm = Inr preds"
    and p: "p \<in> set preds"
  shows "\<exists>samples b. tokenize_batch samples tok = Inr b \<and> p \<in> set (predict_step model b)"
proof -
  from run obtain batches where it: "dataloader_iter dl perm = Inr batches"
    and preds: "preds = concat (map (predict_step model) batches)"
    by (auto simp add: predict_cat_def trainer_predict_def torch_cat_def on_ok_Inr_iff
        split: if_splits)
  from p preds obtain b where b: "b \<in> set batches" and pb: "p \<in> set (predict_step model b)"
    by auto
  have "map (fetch dl) (index_batches dl perm) = map Inr batches"
    using it by (simp add: dataloader_iter_def collect_Inr_iff)
  then have "Inr b \<in> fetch dl ` set (index_batches dl perm)"
    using b by (metis image_eqI list.set_map)
  then obtain q where "fetch dl q = Inr b" by auto
  then have "tokenize_batch (map (table_row (dl_dataset dl)) q) tok = Inr b"
    using coll by (simp add: fetch_def)
  with pb show ?thesis by blast
qed

lemma format_submission_total:
  assumes rd: "readable_split test" and len: "length preds = num_rows test"
    and ids: "list_all (\<lambda>p. 0 \<le> p \<and> p < 6) preds"
  shows "\<exists>df. format_submission test preds = Inr df"
proof -
  from readable_splitD [OF rd] have cols: "map_of (data test) ''sentence'' \<noteq> None"
    "map_of (data test) ''label'' \<noteq> None" "map_of (data test) ''difficulty'' \<noteq> None"
    by auto
  let ?df0 = "to_pandas test"
  have h0: "has_column ?df0 ''label''" "has_column ?df0 ''sentence''" "has_column ?df0 ''difficulty''"
    using cols by (simp_all add: has_column_map_of to_pandas_def)
  obtain df1 where s1: "df_setattr ?df0 ''label'' (map IntV preds) = Inr df1"
    using h0(1) len by (simp add: df_setattr_def to_pandas_def)
  note a1 = df_setattr_Inr [OF s1]
  have col: "map_of (columns df1) ''label'' = Some (map IntV preds)"
    using a1(5) [OF h0(1)] by simp
  have "\<exists>names. collect (list_getitem label_names) preds = Inr names"
  proof (rule collect_total)
    fix p assume "p \<in> set preds"
    then have "0 \<le> p \<and> p < 6" using ids by (simp add: list_all_iff)
    then show "\<exists>y. list_getitem label_names p = Inr y"
      by (simp add: list_getitem_def length_label_names)
  qed
  then obtain names where names: "collect (list_getitem label_names) preds = Inr names"
    by blast
  have s2: "df_attr_apply df1 ''label'' label_of = Inr (map StrV names)"
    using col names by (simp add: df_attr_apply_def collect_label_of)
  have h1: "has_column df1 ''difficulty''" "has_column df1 ''sentence''" "has_column df1 ''label''"
    using h0 a1(3) by (simp_all add: has_column_def)
  have "length (map StrV names) = index_len df1"
    using collect_length [OF names] len a1(2) by (simp add: to_pandas_def)
  then obtain df2 where s3: "df_setattr df1 ''difficulty'' (map StrV names) = Inr df2"
    using h1(1) by (simp add: df_setattr_def)
  note a3 = df_setattr_Inr [OF s3]
  have h2: "has_column (df2\<lparr>index_name := Some ''id''\<rparr>) ''sentence''"
    "has_column (df2\<lparr>index_name := Some ''id''\<rparr>) ''label''"
    using h1 a3(3) by (simp_all add: has_column_def)
  then obtain df where s4: "df_drop (df2\<lparr>index_name := Some ''id''\<rparr>) [''sentence'', ''label''] = Inr df"
    by (simp add: df_drop_def)
  show ?thesis
    by (simp add: format_submission_def Let_def s1 s2 s3 s4)
qed

lemma aligned_in_order:
  assumes dl: "batch_size dl = 16" "\<not> shuffle dl"
      "collate_fn dl = (\<lambda>samples. tokenize_batch samples tok)"
    and one: "\<And>samples b. tokenize_batch samples tok = Inr b \<Longrightarrow>
                length (predict_step model b) = length samples"
    and run: "predict_cat predict_step model dl perm = Inr preds"
  shows "length preds = num_rows (dl_dataset dl)
     \<and> (\<forall>i < num_rows (dl_dataset dl).
           sampler dl perm ! i = i
           \<and> (\<exists>b. fetch dl (index_batches dl perm ! (i div 16)) = Inr b
                 \<and> index_batches dl perm ! (i div 16) ! (i mod 16) = i
                 \<and> table_row (dl_dataset dl) i ''sentence'' = Some (sentences b ! (i mod 16))
                 \<and> table_row (dl_dataset dl) i ''label'' = Some (IntV (labels b ! (i mod 16)))
                 \<and> preds ! i = predict_step model b ! (i mod 16)))"
proof -
  have bs: "0 < batch_size dl" using dl(1) by simp
  have n: "length (sampler dl perm) = num_rows (dl_dataset dl)"
    using dl(2) by (simp add: sampler_in_order)
  show ?thesis
  proof (cases "num_rows (dl_dataset dl)")
    case 0
    then have "index_batches dl perm = []" using dl(2) by (simp add: index_batches_def sampler_def)
    then have "dataloader_iter dl perm = Inr []" by (simp add: dataloader_iter_def)
    then have "predict_cat predict_step model dl perm = Inl RuntimeError"
      by (simp add: predict_cat_def trainer_predict_def torch_cat_def)
    with run show ?thesis by simp
  next
    case (Suc m)
    have row: "sampler dl perm ! i = i
           \<and> (\<exists>b. fetch dl (index_batches dl perm ! (i div 16)) = Inr b
                 \<and> index_batches dl perm ! (i div 16) ! (i mod 16) = i
                 \<and> table_row (dl_dataset dl) i ''sentence'' = Some (sentences b ! (i mod 16))
                 \<and> table_row (dl_dataset dl) i ''label'' = Some (IntV (labels b ! (i mod 16)))
                 \<and> preds ! i = predict_step model b ! (i mod 16))"
      if i: "i < num_rows (dl_dataset dl)" for i
    proof -
      have i': "i < length (sampler dl perm)" using i n by simp
      have o: "sampler dl perm ! i = i" using dl(2) i by (rule sampler_in_order(2))
      from predict_cat_aligned [OF bs dl(3) one run i'] o dl(1)
      show ?thesis by auto
    qed
    have "0 < length (sampler dl perm)" using Suc n by simp
    from predict_cat_aligned [OF bs dl(3) one run this]
    have "length preds = num_rows (dl_dataset dl)" using n by simp
    with row show ?thesis by blast
  qed
qed

lemma aligned_in_order_alt:
  assumes dl: "batch_size dl = 16" "\<not> shuffle dl"
      "collate_fn dl = (\<lambda>samples. tokenize_batch samples tok)"
    and one: "\<And>samples b. tokenize_batch samples tok = Inr b \<Longrightarrow>
                length (predict_step model b) = length samples"
    and run: "predict_cat predict_step model dl perm = Inr preds"
  shows "length preds = num_rows (dl_dataset dl)"
  using aligned_in_order [OF dl one run] by blast

text \<open>
  Claim C2. For a model that returns one label id per sample of every batch the collate
  function builds: when the submission is written, \<open>preds.csv\<close> has one line for every
  row of the test split, in the order of the split: line \<open>i\<close> carries the index \<open>i\<close>, and
  its \<open>difficulty\<close> is the name of the label predicted for test row \<open>i\<close>, which is sample
  \<open>i mod 16\<close> of batch \<open>i div 16\<close> of the unshuffled test data loader. And the submission
  is written, with one line per row, whenever the test split is readable and the model
  returns label ids from 0 to 5.
\<close>

theorem one_row_per_test_row_in_order:
  assumes one: "\<And>samples b. tokenize_batch samples tok = Inr b \<Longrightarrow>
                  length (predict_step model b) = length samples"
  shows "(\<forall>f. submission_cell predict_step model dataset tok = Inr f \<longrightarrow>
            (\<exists>dl. test_dataloader dataset tok = Inr dl
               \<and> map_of dataset ''test'' = Some (dl_dataset dl)
               \<and> \<not> shuffle dl
               \<and> length (csv_lines f) = num_rows (dl_dataset dl)
               \<and> (\<forall>i < num_rows (dl_dataset dl).
                     fst (csv_lines f ! i) = i
                     \<and> index_batches dl [] ! (i div 16) ! (i mod 16) = i
                     \<and> (\<exists>b s. fetch dl (index_batches dl [] ! (i div 16)) = Inr b
                           \<and> table_row (dl_dataset dl) i ''sentence''
                                = Some (sentences b ! (i mod 16))
                           \<and> list_getitem label_names (predict_step model b ! (i mod 16)) = Inr s
                           \<and> csv_field f i ''difficulty'' = Some (StrV s)))))
     \<and> (\<forall>test. map_of dataset ''test'' = Some test \<and> readable_split test
            \<and> (\<forall>samples b. tokenize_batch samples tok = Inr b \<longrightarrow>
                  list_all (\<lambda>p. 0 \<le> p \<and> p < 6) (predict_step model b))
          \<longrightarrow> (\<exists>f. submission_cell predict_step model dataset tok = Inr f
                 \<and> length (csv_lines f) = num_rows test))"
proof (intro conjI allI impI)
  fix f
  assume run: "submission_cell predict_step model dataset tok = Inr f"
  from submission_cell_Inr [OF run] obtain dl preds df where
    d: "test_dataloader dataset tok = Inr dl"
    and p: "predict_cat predict_step model dl [] = Inr preds"
    and s: "format_submission (dl_dataset dl) preds = Inr df"
    and f: "f = to_csv df"
    by blast
  note fs = format_submission_Inr [OF s]
  note dl = dataloader_Inr(3) [OF d]
  have coll: "collate_fn dl = (\<lambda>samples. tokenize_batch samples tok)"
    and bs: "batch_size dl = 16" and "0 < batch_size dl" and sh: "\<not> shuffle dl"
    using dl by simp_all
  let ?n = "num_rows (dl_dataset dl)"
  have has: "map_of (data (dl_dataset dl)) ''difficulty'' \<noteq> None"
    by (rule predict_cat_columns [OF coll p])
  from fs(7) has obtain names where
    names: "collect (list_getitem label_names) preds = Inr names"
    and col: "map_of (columns df) ''difficulty'' = Some (map StrV names)"
    by blast
  have len_names: "length names = length preds" using names by (rule collect_length)
  have len: "length (csv_lines f) = ?n" using f fs(3) by (simp add: to_csv_lines)
  have row: "fst (csv_lines f ! i) = i
       \<and> index_batches dl [] ! (i div 16) ! (i mod 16) = i
       \<and> (\<exists>b s. fetch dl (index_batches dl [] ! (i div 16)) = Inr b
             \<and> table_row (dl_dataset dl) i ''sentence'' = Some (sentences b ! (i mod 16))
             \<and> list_getitem label_names (predict_step model b ! (i mod 16)) = Inr s
             \<and> csv_field f i ''difficulty'' = Some (StrV s))"
    if i: "i < ?n" for i
  proof -
    have i': "i < length (sampler dl [])" using i sh by (simp add: sampler_in_order)
    from predict_cat_aligned [OF \<open>0 < batch_size dl\<close> coll one p i'] obtain b where
      q: "index_batches dl [] ! (i div 16) ! (i mod 16) = i"
      and b: "fetch dl (index_batches dl [] ! (i div 16)) = Inr b"
      and st: "table_row (dl_dataset dl) i ''sentence'' = Some (sentences b ! (i mod 16))"
      and pr: "preds ! i = predict_step model b ! (i mod 16)"
      using bs sampler_in_order(2) [OF sh i] by auto
    have ip: "i < length preds" using i fs(1) by simp
    have g: "list_getitem label_names (preds ! i) = Inr (names ! i)"
      using names ip by (rule collect_nth)
    have "i < index_len df" using i fs(3) by simp
    then have c: "csv_field f i ''difficulty'' = Some (StrV (names ! i))"
      using f col ip len_names by (simp add: csv_field_to_csv)
    have "fst (csv_lines f ! i) = i" using f i fs(3) by (simp add: to_csv_lines)
    with q b st pr g c show ?thesis by auto
  qed
  show "\<exists>dl. test_dataloader dataset tok = Inr dl
               \<and> map_of dataset ''test'' = Some (dl_dataset dl)
               \<and> \<not> shuffle dl
               \<and> length (csv_lines f) = num_rows (dl_dataset dl)
               \<and> (\<forall>i < num_rows (dl_dataset dl).
                     fst (csv_lines f ! i) = i
                     \<and> index_batches dl [] ! (i div 16) ! (i mod 16) = i
                     \<and> (\<exists>b s. fetch dl (index_batches dl [] ! (i div 16)) = Inr b
                           \<and> table_row (dl_dataset dl) i ''sentence''
                                = Some (sentences b ! (i mod 16))
                           \<and> list_getitem label_names (predict_step model b ! (i mod 16)) = Inr s
                           \<and> csv_field f i ''difficulty'' = Some (StrV s)))"
    using d dl sh len row by blast
next
  fix test
  assume a: "map_of dataset ''test'' = Some test \<and> readable_split test
            \<and> (\<forall>samples b. tokenize_batch samples tok = Inr b \<longrightarrow>
                  list_all (\<lambda>p. 0 \<le> p \<and> p < 6) (predict_step model b))"
  then have t: "map_of dataset ''test'' = Some test" and rd: "readable_split test"
    and ids: "\<And>samples b. tokenize_batch samples tok = Inr b \<Longrightarrow>
                  list_all (\<lambda>p. 0 \<le> p \<and> p < 6) (predict_step model b)"
    by blast+
  obtain dl :: dataloader where d: "test_dataloader dataset tok = Inr dl" and ds: "dl_dataset dl = test"
    using t by (simp add: test_dataloader_def dict_getitem_def)
  note dl = dataloader_Inr(3) [OF d]
  have coll: "collate_fn dl = (\<lambda>samples. tokenize_batch samples tok)"
    and bs: "batch_size dl = 16" and pos: "0 < batch_size dl" and sh: "\<not> shuffle dl"
    using dl by simp_all
  from predict_cat_total [OF pos sh coll, of predict_step model "[]"] rd ds
  obtain preds where p: "predict_cat predict_step model dl [] = Inr preds" by auto
  have len: "length preds = num_rows test"
    using aligned_in_order_alt [OF bs sh coll one p] ds by simp
  have "list_all (\<lambda>p. 0 \<le> p \<and> p < 6) preds"
    unfolding list_all_iff
  proof
    fix x assume "x \<in> set preds"
    from predict_cat_elems [OF coll p this] obtain samples b where
      "tokenize_batch samples tok = Inr b" and "x \<in> set (predict_step model b)" by blast
    with ids show "0 \<le> x \<and> x < 6" by (auto simp add: list_all_iff)
  qed
  from format_submission_total [OF rd len this] obtain df where
    s: "format_submission test preds = Inr df" by blast
  have "submission_cell predict_step model dataset tok = Inr (to_csv df)"
    using d p t s by (simp add: submission_cell_def dict_getitem_def)
  moreover have "length (csv_lines (to_csv df)) = num_rows test"
    using format_submission_Inr(3) [OF s] by (simp add: to_csv_lines)
  ultimately show "\<exists>f. submission_cell predict_step model dataset tok = Inr f
                 \<and> length (csv_lines f) = num_rows test"
    by blast
qed

lemma ex_tensor_one:
  "tokenize_batch samples tok = Inr b \<Longrightarrow> length (ex_tensor_step model b) = length samples"
  using tokenize_batch_Inr(5) [of samples tok b] by (simp add: ex_tensor_step_def)

lemma ex_tensor_ids:
  "list_all (\<lambda>p. 0 \<le> p \<and> p < 6) (ex_tensor_step model b)"
  by (simp add: ex_tensor_step_def list_all_iff)

lemma ex_long_readable: "readable_split ex_long_split"
  by code_simp

lemma ex_long_rows: "num_rows ex_long_split = 18"
  by code_simp

lemma ex_long_dataloaders:
  "train_dataloader ex_long_dataset ex_tokenizer = Inr ex_train_dl"
  "val_dataloader ex_long_dataset ex_tokenizer = Inr ex_long_dl"
  "test_dataloader ex_long_dataset ex_tokenizer = Inr ex_long_dl"
  by (simp_all add: train_dataloader_def val_dataloader_def test_dataloader_def
      ex_long_dataset_def dict_getitem_def ex_train_dl_def ex_long_dl_def)

lemma ex_long_batches:
  "index_batches ex_long_dl [] = [[0, 1, 2, 3, 4, 5, 6, 7, 8, 9, 10, 11, 12, 13, 14, 15], [16, 17]]"
  by code_simp

lemma ex_long_predict: "predict_cat ex_tensor_step 11 ex_long_dl [] = Inr ex_long_preds"
  by code_simp

lemma ex_long_submission:
  "submission_cell ex_tensor_step 11 ex_long_dataset ex_tokenizer = Inr ex_long_csv"
  by code_simp

lemma ex_long_line: "csv_field ex_long_csv 17 ''difficulty'' = Some (StrV ''B1'')"
  by code_simp

theorem one_row_per_test_row_in_order_witness:
  "map_of ex_long_dataset ''test'' = Some ex_long_split
   \<and> readable_split ex_long_split
   \<and> num_rows ex_long_split = 18
   \<and> list_all (\<lambda>p. 0 \<le> p \<and> p < 6) ex_long_preds
   \<and> submission_cell ex_tensor_step 11 ex_long_dataset ex_tokenizer = Inr ex_long_csv
   \<and> test_dataloader ex_long_dataset ex_tokenizer = Inr ex_long_dl
   \<and> length (index_batches ex_long_dl []) = 2
   \<and> length (csv_lines ex_long_csv) = 18
   \<and> (17::nat) < 18
   \<and> fst (csv_lines ex_long_csv ! 17) = 17
   \<and> index_batches ex_long_dl [] ! (17 div 16) ! (17 mod 16) = 17
   \<and> csv_field ex_long_csv 17 ''difficulty'' = Some (StrV ''B1'')"
proof -
  note t = one_row_per_test_row_in_order [where predict_step = ex_tensor_step and model = "11::nat"
      and tok = ex_tokenizer and dataset = ex_long_dataset,
      OF ex_tensor_one [where tok = ex_tokenizer and model = "11::nat"]]
  have m: "map_of ex_long_dataset ''test'' = Some ex_long_split"
    by (simp add: ex_long_dataset_def)
  from t m ex_long_readable ex_tensor_ids
  obtain f where "submission_cell ex_tensor_step 11 ex_long_dataset ex_tokenizer = Inr f"
    and "length (csv_lines f) = num_rows ex_long_split"
    by blast
  then have len: "length (csv_lines ex_long_csv) = 18"
    by (simp add: ex_long_submission ex_long_rows)
  from t ex_long_submission obtain dl :: dataloader where
    d: "test_dataloader ex_long_dataset ex_tokenizer = Inr dl"
    and r: "\<forall>i < num_rows (dl_dataset dl). fst (csv_lines ex_long_csv ! i) = i
                     \<and> index_batches dl [] ! (i div 16) ! (i mod 16) = i"
    by blast
  from d have dl: "dl = ex_long_dl" by (simp add: ex_long_dataloaders)
  have "(17::nat) < num_rows (dl_dataset ex_long_dl)"
    by (simp add: ex_long_dl_def ex_long_rows)
  with r dl have row: "fst (csv_lines ex_long_csv ! 17) = 17
      \<and> index_batches ex_long_dl [] ! (17 div 16) ! (17 mod 16) = 17"
    by blast
  have ids: "list_all (\<lambda>p. 0 \<le> p \<and> p < 6) ex_long_preds"
    by (simp add: ex_long_preds_def list_all_iff)
  have two: "length (index_batches ex_long_dl []) = 2"
    by (simp add: ex_long_batches)
  show ?thesis
    using m ex_long_readable ex_long_rows ids ex_long_submission ex_long_dataloaders(3)
      two len row ex_long_line
    by simp
qed

lemma distinct_singleton: "distinct xs \<Longrightarrow> set xs = {d} \<Longrightarrow> xs = [d]"
proof -
  assume d: "distinct xs" and s: "set xs = {d}"
  then have "length xs = 1" using distinct_card [OF d] by simp
  then obtain x where "xs = [x]" by (cases xs) auto
  with s show ?thesis by simp
qed

text \<open>
  Claim C8. The dataframe that is exported has the index name \<open>id\<close> and the columns of the
  test split without \<open>sentence\<close> and \<open>label\<close>, in their order: no line of the file has a
  \<open>sentence\<close> or a \<open>label\<close> field, the \<open>difficulty\<close> column holds the predicted level
  names, and every other column of the test split is unchanged. When the test split has
  just the three columns the pipeline reads, \<open>difficulty\<close> is the only column left.
\<close>

theorem submission_keeps_only_difficulty:
  assumes run: "format_submission test preds = Inr df"
  shows "index_name df = Some ''id''
     \<and> csv_header (to_csv df)
          = ''id'' # filter (\<lambda>n. n \<notin> {''sentence'', ''label''}) (map fst (data test))
     \<and> ''sentence'' \<notin> set (map fst (columns df)) \<and> ''label'' \<notin> set (map fst (columns df))
     \<and> (\<forall>i < num_rows test. csv_field (to_csv df) i ''sentence'' = None
            \<and> csv_field (to_csv df) i ''label'' = None)
     \<and> (\<forall>c. c \<notin> {''sentence'', ''label'', ''difficulty''} \<longrightarrow>
            map_of (columns df) c = map_of (data test) c
            \<and> (\<forall>i < num_rows test. csv_field (to_csv df) i c = table_row test i c))
     \<and> (\<exists>names. collect (list_getitem label_names) preds = Inr names
            \<and> (map_of (data test) ''difficulty'' \<noteq> None \<longrightarrow>
                  map_of (columns df) ''difficulty'' = Some (map StrV names)))
     \<and> (distinct (map fst (data test))
          \<and> set (map fst (data test)) = {''sentence'', ''label'', ''difficulty''} \<longrightarrow>
            map fst (columns df) = [''difficulty'']
            \<and> csv_header (to_csv df) = [''id'', ''difficulty''])"
proof -
  note fs = format_submission_Inr [OF run]
  let ?keep = "\<lambda>n. n \<notin> {''sentence'', ''label''}"
  have hdr: "csv_header (to_csv df) = ''id'' # filter ?keep (map fst (data test))"
    using fs(2) fs(4) by (simp add: to_csv_def)
  have gone: "''sentence'' \<notin> set (map fst (columns df))" "''label'' \<notin> set (map fst (columns df))"
    unfolding fs(4) by simp_all
  then have none: "map_of (columns df) ''sentence'' = None" "map_of (columns df) ''label'' = None"
    by (simp_all add: map_of_eq_None_iff)
  have cells: "\<forall>i < num_rows test. csv_field (to_csv df) i ''sentence'' = None
            \<and> csv_field (to_csv df) i ''label'' = None"
    using none fs(3) by (simp add: csv_field_to_csv)
  have frame: "\<forall>c. c \<notin> {''sentence'', ''label'', ''difficulty''} \<longrightarrow>
            map_of (columns df) c = map_of (data test) c
            \<and> (\<forall>i < num_rows test. csv_field (to_csv df) i c = table_row test i c)"
    using fs(6) fs(3) by (simp add: csv_field_to_csv table_row_eq)
  have pred: "\<exists>names. collect (list_getitem label_names) preds = Inr names
            \<and> (map_of (data test) ''difficulty'' \<noteq> None \<longrightarrow>
                  map_of (columns df) ''difficulty'' = Some (map StrV names))"
    using fs(7) by blast
  have only: "map fst (columns df) = [''difficulty'']
            \<and> csv_header (to_csv df) = [''id'', ''difficulty'']"
    if d: "distinct (map fst (data test))"
      and s: "set (map fst (data test)) = {''sentence'', ''label'', ''difficulty''}"
  proof -
    have "distinct (filter ?keep (map fst (data test)))" using d by simp
    moreover have "set (filter ?keep (map fst (data test))) = {''difficulty''}"
      unfolding set_filter s by auto
    ultimately have "filter ?keep (map fst (data test)) = [''difficulty'']"
      by (rule distinct_singleton)
    then show ?thesis using hdr fs(4) by simp
  qed
  show ?thesis
    using fs(2) hdr gone cells frame pred only by blast
qed

lemma ex_format_submission: "format_submission ex_test [3, 1, 2] = Inr ex_df"
  by code_simp

theorem submission_keeps_only_difficulty_witness:
  "format_submission ex_test [3, 1, 2] = Inr ex_df
   \<and> distinct (map fst (data ex_test))
   \<and> set (map fst (data ex_test)) = {''sentence'', ''label'', ''difficulty''}
   \<and> csv_header (to_csv ex_df) = [''id'', ''difficulty'']
   \<and> (1::nat) < num_rows ex_test
   \<and> csv_field (to_csv ex_df) 1 ''sentence'' = None
   \<and> csv_field (to_csv ex_df) 1 ''label'' = None"
proof -
  have d: "distinct (map fst (data ex_test))"
    and s: "set (map fst (data ex_test)) = {''sentence'', ''label'', ''difficulty''}"
    and n: "(1::nat) < num_rows ex_test"
    by (auto simp add: ex_test_def ex_split_def)
  note t = submission_keeps_only_difficulty [OF ex_format_submission]
  from t d s have h: "csv_header (to_csv ex_df) = [''id'', ''difficulty'']"
    by blast
  from t have "\<forall>i < num_rows ex_test. csv_field (to_csv ex_df) i ''sentence'' = None
            \<and> csv_field (to_csv ex_df) i ''label'' = None"
    by blast
  with n have "csv_field (to_csv ex_df) 1 ''sentence'' = None
     \<and> csv_field (to_csv ex_df) 1 ''label'' = None"
    by blast
  with d s n h show ?thesis using ex_format_submission by simp
qed

subsection \<open>Shuffling, batch size and the training configuration\<close>

text \<open>
  Claim C9. The train data loader shuffles (its sampler yields the drawn order \<open>perm\<close>) and
  the validation and test data loaders do not; so, for a model that returns one label id
  per sample of every batch the collate function builds, the concatenated predictions on
  the validation or the test split have one entry per row, and entry \<open>i\<close> is the
  prediction made for row \<open>i\<close>: the sample at place \<open>i mod 16\<close> of batch \<open>i div 16\<close> is row
  \<open>i\<close>, with its sentence and its label. On a readable split the predictions are
  returned, one per row.
\<close>

theorem shuffle_flags_and_alignment:
  assumes tr: "train_dataloader dataset tok = Inr train_dl"
    and va: "val_dataloader dataset tok = Inr val_dl"
    and te: "test_dataloader dataset tok = Inr test_dl"
    and one: "\<And>samples b. tokenize_batch samples tok = Inr b \<Longrightarrow>
                length (predict_step model b) = length samples"
  shows "shuffle train_dl \<and> \<not> shuffle val_dl \<and> \<not> shuffle test_dl
     \<and> sampler train_dl perm = perm
     \<and> (\<forall>dl \<in> {val_dl, test_dl}. \<forall>preds.
           predict_cat predict_step model dl perm = Inr preds \<longrightarrow>
             length preds = num_rows (dl_dataset dl)
             \<and> (\<forall>i < num_rows (dl_dataset dl).
                   sampler dl perm ! i = i
                   \<and> (\<exists>b. fetch dl (index_batches dl perm ! (i div 16)) = Inr b
                         \<and> index_batches dl perm ! (i div 16) ! (i mod 16) = i
                         \<and> table_row (dl_dataset dl) i ''sentence''
                              = Some (sentences b ! (i mod 16))
                         \<and> table_row (dl_dataset dl) i ''label''
                              = Some (IntV (labels b ! (i mod 16)))
                         \<and> preds ! i = predict_step model b ! (i mod 16))))
     \<and> (\<forall>dl \<in> {val_dl, test_dl}. readable_split (dl_dataset dl) \<longrightarrow>
           (\<exists>preds. predict_cat predict_step model dl perm = Inr preds
              \<and> length preds = num_rows (dl_dataset dl)))"
proof -
  note t = dataloader_Inr(1) [OF tr] and v = dataloader_Inr(2) [OF va]
    and s = dataloader_Inr(3) [OF te]
  have flags: "shuffle train_dl \<and> \<not> shuffle val_dl \<and> \<not> shuffle test_dl"
    using t v s by simp
  have train: "sampler train_dl perm = perm" using t by (simp add: sampler_def)
  have val: "\<forall>preds. predict_cat predict_step model val_dl perm = Inr preds \<longrightarrow>
      length preds = num_rows (dl_dataset val_dl)
     \<and> (\<forall>i < num_rows (dl_dataset val_dl).
           sampler val_dl perm ! i = i
           \<and> (\<exists>b. fetch val_dl (index_batches val_dl perm ! (i div 16)) = Inr b
                 \<and> index_batches val_dl perm ! (i div 16) ! (i mod 16) = i
                 \<and> table_row (dl_dataset val_dl) i ''sentence'' = Some (sentences b ! (i mod 16))
                 \<and> table_row (dl_dataset val_dl) i ''label'' = Some (IntV (labels b ! (i mod 16)))
                 \<and> preds ! i = predict_step model b ! (i mod 16)))"
    using aligned_in_order [of val_dl tok predict_step model perm] v one by blast
  have test: "\<forall>preds. predict_cat predict_step model test_dl perm = Inr preds \<longrightarrow>
      length preds = num_rows (dl_dataset test_dl)
     \<and> (\<forall>i < num_rows (dl_dataset test_dl).
           sampler test_dl perm ! i = i
           \<and> (\<exists>b. fetch test_dl (index_batches test_dl perm ! (i div 16)) = Inr b
                 \<and> index_batches test_dl perm ! (i div 16) ! (i mod 16) = i
                 \<and> table_row (dl_dataset test_dl) i ''sentence'' = Some (sentences b ! (i mod 16))
                 \<and> table_row (dl_dataset test_dl) i ''label'' = Some (IntV (labels b ! (i mod 16)))
                 \<and> preds ! i = predict_step model b ! (i mod 16)))"
    using aligned_in_order [of test_dl tok predict_step model perm] s one by blast
  have total: "\<exists>preds. predict_cat predict_step model dl perm = Inr preds
              \<and> length preds = num_rows (dl_dataset dl)"
    if dl: "batch_size dl = 16" "\<not> shuffle dl"
      "collate_fn dl = (\<lambda>samples. tokenize_batch samples tok)"
      and rd: "readable_split (dl_dataset dl)" for dl
  proof -
    have "0 < batch_size dl" using dl(1) by simp
    from predict_cat_total [OF this dl(2) dl(3) rd, of predict_step model perm]
    obtain preds where p: "predict_cat predict_step model dl perm = Inr preds" by blast
    with aligned_in_order_alt [OF dl one p] show ?thesis by blast
  qed
  have tv: "readable_split (dl_dataset val_dl) \<longrightarrow>
           (\<exists>preds. predict_cat predict_step model val_dl perm = Inr preds
              \<and> length preds = num_rows (dl_dataset val_dl))"
    using total [of val_dl] v by blast
  have tt: "readable_split (dl_dataset test_dl) \<longrightarrow>
           (\<exists>preds. predict_cat predict_step model test_dl perm = Inr preds
              \<and> length preds = num_rows (dl_dataset test_dl))"
    using total [of test_dl] s by blast
  show ?thesis using flags train val test tv tt by simp
qed

theorem shuffle_flags_and_alignment_witness:
  "train_dataloader ex_long_dataset ex_tokenizer = Inr ex_train_dl
   \<and> val_dataloader ex_long_dataset ex_tokenizer = Inr ex_long_dl
   \<and> test_dataloader ex_long_dataset ex_tokenizer = Inr ex_long_dl
   \<and> shuffle ex_train_dl \<and> \<not> shuffle ex_long_dl
   \<and> ex_long_dl \<in> {ex_long_dl, ex_long_dl}
   \<and> readable_split (dl_dataset ex_long_dl)
   \<and> num_rows (dl_dataset ex_long_dl) = 18
   \<and> length (index_batches ex_long_dl []) = 2
   \<and> predict_cat ex_tensor_step 11 ex_long_dl [] = Inr ex_long_preds
   \<and> length ex_long_preds = 18
   \<and> (17::nat) < 18
   \<and> sampler ex_long_dl [] ! 17 = 17
   \<and> index_batches ex_long_dl [] ! (17 div 16) ! (17 mod 16) = 17
   \<and> (\<exists>b. fetch ex_long_dl (index_batches ex_long_dl [] ! (17 div 16)) = Inr b
         \<and> table_row (dl_dataset ex_long_dl) 17 ''sentence'' = Some (sentences b ! (17 mod 16))
         \<and> ex_long_preds ! 17 = ex_tensor_step 11 b ! (17 mod 16))"
proof -
  note t = shuffle_flags_and_alignment [where predict_step = ex_tensor_step and model = "11::nat"
      and perm = "[]",
      OF ex_long_dataloaders ex_tensor_one [where tok = ex_tokenizer and model = "11::nat"]]
  have rd: "readable_split (dl_dataset ex_long_dl)"
    by (simp add: ex_long_dl_def ex_long_readable)
  have n: "num_rows (dl_dataset ex_long_dl) = 18"
    by (simp add: ex_long_dl_def ex_long_rows)
  from t have flags: "shuffle ex_train_dl \<and> \<not> shuffle ex_long_dl" by blast
  from t rd obtain preds where "predict_cat ex_tensor_step 11 ex_long_dl [] = Inr preds"
    and "length preds = num_rows (dl_dataset ex_long_dl)"
    by blast
  then have len: "length ex_long_preds = 18"
    by (simp add: ex_long_predict n)
  from t ex_long_predict have "\<forall>i < num_rows (dl_dataset ex_long_dl).
       sampler ex_long_dl [] ! i = i
       \<and> (\<exists>b. fetch ex_long_dl (index_batches ex_long_dl [] ! (i div 16)) = Inr b
             \<and> index_batches ex_long_dl [] ! (i div 16) ! (i mod 16) = i
             \<and> table_row (dl_dataset ex_long_dl) i ''sentence'' = Some (sentences b ! (i mod 16))
             \<and> table_row (dl_dataset ex_long_dl) i ''label'' = Some (IntV (labels b ! (i mod 16)))
             \<and> ex_long_preds ! i = ex_tensor_step 11 b ! (i mod 16))"
    by blast
  moreover have "(17::nat) < num_rows (dl_dataset ex_long_dl)" using n by simp
  ultimately have row: "sampler ex_long_dl [] ! 17 = 17
       \<and> (\<exists>b. fetch ex_long_dl (index_batches ex_long_dl [] ! (17 div 16)) = Inr b
             \<and> index_batches ex_long_dl [] ! (17 div 16) ! (17 mod 16) = 17
             \<and> table_row (dl_dataset ex_long_dl) 17 ''sentence'' = Some (sentences b ! (17 mod 16))
             \<and> ex_long_preds ! 17 = ex_tensor_step 11 b ! (17 mod 16))"
    by blast
  have two: "length (index_batches ex_long_dl []) = 2"
    by (simp add: ex_long_batches)
  show ?thesis
    using ex_long_dataloaders flags rd n two ex_long_predict len row by simp blast
qed

lemma batch_lengths:
  assumes "batch_size dl = 16" and "b \<in> set (index_batches dl perm)"
  shows "0 < length b \<and> length b \<le> 16"
  using assms batch_sampler_nonempty [of b 16 "[]" "sampler dl perm"]
    batch_sampler_le [of "[]" 16 b "sampler dl perm"]
  by (simp add: index_batches_def)

text \<open>
  Claim C6. The configuration passed to the libraries: each of the three data loaders
  has \<open>batch_size = 16\<close> (so every batch of row numbers has between one and sixteen
  entries), the model is built with the learning rate \<open>3e-5\<close>, and early stopping monitors
  \<open>valid/acc\<close> in mode \<open>max\<close> with patience 4.
\<close>

theorem training_configuration:
  assumes tr: "train_dataloader dataset tok = Inr train_dl"
    and va: "val_dataloader dataset tok = Inr val_dl"
    and te: "test_dataloader dataset tok = Inr test_dl"
    and ar: "lightning_model_args dataset = Inr args"
  shows "batch_size train_dl = 16 \<and> batch_size val_dl = 16 \<and> batch_size test_dl = 16
     \<and> lr args = Decimal 3 (- 5)
     \<and> es_monitor (early_stopping camembert_trainer) = ''valid/acc''
     \<and> es_mode (early_stopping camembert_trainer) = ''max''
     \<and> es_patience (early_stopping camembert_trainer) = 4
     \<and> (\<forall>dl \<in> {train_dl, val_dl, test_dl}. \<forall>perm. \<forall>b \<in> set (index_batches dl perm).
           0 < length b \<and> length b \<le> 16)"
proof -
  note t = dataloader_Inr(1) [OF tr] and v = dataloader_Inr(2) [OF va]
    and s = dataloader_Inr(3) [OF te]
  have "lr args = Decimal 3 (- 5)"
    using ar by (auto simp add: lightning_model_args_def on_ok_Inr_iff)
  moreover have "es_monitor (early_stopping camembert_trainer) = ''valid/acc''
     \<and> es_mode (early_stopping camembert_trainer) = ''max''
     \<and> es_patience (early_stopping camembert_trainer) = 4"
    by (simp add: camembert_trainer_def)
  moreover have "\<forall>dl \<in> {train_dl, val_dl, test_dl}. \<forall>perm. \<forall>b \<in> set (index_batches dl perm).
           0 < length b \<and> length b \<le> 16"
    using t v s batch_lengths by blast
  ultimately show ?thesis using t v s by simp
qed

lemma ex_dataloaders:
  "train_dataloader ex_dataset ex_tokenizer = Inr ex_train_dl"
  "val_dataloader ex_dataset ex_tokenizer = Inr ex_val_dl"
  "test_dataloader ex_dataset ex_tokenizer = Inr ex_test_dl"
  by (simp_all add: train_dataloader_def val_dataloader_def test_dataloader_def ex_dataset_def
      dict_getitem_def ex_train_dl_def ex_val_dl_def ex_test_dl_def)

lemma ex_train_batches:
  "index_batches ex_train_dl [7, 6, 5, 4, 3, 2, 1, 0] = [[7, 6, 5, 4, 3, 2, 1, 0]]"
  by code_simp

theorem training_configuration_witness:
  "train_dataloader ex_dataset ex_tokenizer = Inr ex_train_dl
   \<and> val_dataloader ex_dataset ex_tokenizer = Inr ex_val_dl
   \<and> test_dataloader ex_dataset ex_tokenizer = Inr ex_test_dl
   \<and> lightning_model_args ex_dataset =
       Inr \<lparr>model_name = ''camembert-base'', head_size = 6, lr = Decimal 3 (- 5), weight_decay = 2\<rparr>
   \<and> batch_size ex_train_dl = 16 \<and> batch_size ex_val_dl = 16 \<and> batch_size ex_test_dl = 16
   \<and> ex_train_dl \<in> {ex_train_dl, ex_val_dl, ex_test_dl}
   \<and> [7, 6, 5, 4, 3, 2, 1, 0] \<in> set (index_batches ex_train_dl [7, 6, 5, 4, 3, 2, 1, 0])
   \<and> 0 < length [7, 6, 5, 4, 3, 2, 1, 0 :: nat] \<and> length [7, 6, 5, 4, 3, 2, 1, 0 :: nat] \<le> 16"
proof -
  note t = training_configuration [OF ex_dataloaders ex_dataset_args]
  from t have bs: "batch_size ex_train_dl = 16 \<and> batch_size ex_val_dl = 16
      \<and> batch_size ex_test_dl = 16"
    by blast
  have m: "[7, 6, 5, 4, 3, 2, 1, 0] \<in> set (index_batches ex_train_dl [7, 6, 5, 4, 3, 2, 1, 0])"
    by (subst ex_train_batches) simp
  from t have "\<forall>perm. \<forall>b \<in> set (index_batches ex_train_dl perm). 0 < length b \<and> length b \<le> 16"
    by blast
  with m have "0 < length [7, 6, 5, 4, 3, 2, 1, 0 :: nat] \<and> length [7, 6, 5, 4, 3, 2, 1, 0 :: nat] \<le> 16"
    by blast
  with bs m show ?thesis using ex_dataloaders ex_dataset_args by simp
qed

end
